theory Spec2Isabelle
  imports Complex_Main
begin

section \<open>The rate limiter of \<^verbatim>\<open>src/utils/rateLimiter.js\<close>\<close>

text \<open>
  The class \<^verbatim>\<open>RateLimiter\<close> keeps three maps (\<^verbatim>\<open>userLimits\<close>, \<^verbatim>\<open>globalLimits\<close>,
  \<^verbatim>\<open>tempBans\<close>), a set (\<^verbatim>\<open>premiumUsers\<close>) and a configuration object. Every method
  is modelled as a function that takes the limiter and returns the updated limiter beside
  its result. \<^verbatim>\<open>Date.now()\<close> is an explicit argument \<open>now\<close> (integer milliseconds).

  Modelling decisions, all visible in the definitions below:
  \<^item> timestamps and quotas are JavaScript numbers holding integers: \<open>int\<close>;
  \<^item> \<^verbatim>\<open>violations\<close> is a JavaScript number changed by \<^verbatim>\<open>+ 1\<close> and \<^verbatim>\<open>- 0.1\<close>. It is
    modelled in exact arithmetic (\<open>rat\<close>), the "non-negative real number" of the data
    model; the rounding of IEEE doubles is not modelled;
  \<^item> \<^verbatim>\<open>retryAfter\<close> is a JavaScript number that can be fractional
    (\<^verbatim>\<open>tempBanDuration / 1000\<close>) or \<^verbatim>\<open>Infinity\<close> (\<^verbatim>\<open>Math.min()\<close> of no arguments);
  \<^item> the \<^verbatim>\<open>message\<close> strings of a decision, built from the same numbers, and the
    calls to \<^verbatim>\<open>Logger\<close> are left out;
  \<^item> the record \<^verbatim>\<open>{ requests: [] }\<close> stored under the key \<^verbatim>\<open>'global'\<close> has one
    field and is modelled by that field;
  \<^item> \<^verbatim>\<open>Math.max(...xs)\<close> and \<^verbatim>\<open>Math.min(...xs)\<close> are modelled for every list; the
    limit that an engine puts on the number of spread arguments is not;
  \<^item> the second parameter of \<^verbatim>\<open>checkRateLimit\<close>, \<^verbatim>\<open>guildId\<close>, is never read and is
    left out; \<^verbatim>\<open>getGlobalStats\<close>, which only reads, is not modelled;
  \<^item> the timer that the constructor starts calls \<^verbatim>\<open>cleanup\<close> every ten minutes; these
    calls appear as \<open>Cleanup\<close> calls in a sequence of calls.
\<close>

subsection \<open>Data\<close>

record userData =
  requests :: "int list"
  violations :: rat

record config =
  userRequestsPerMinute :: int
  userRequestsPerHour :: int
  globalRequestsPerMinute :: int
  globalRequestsPerHour :: int
  premiumUserRequestsPerMinute :: int
  premiumUserRequestsPerHour :: int
  cooldownPeriod :: int
  tempBanDuration :: int

record rateLimiter =
  userLimits :: "string \<rightharpoonup> userData"
  globalLimits :: "string \<rightharpoonup> int list"
  tempBans :: "string \<rightharpoonup> int"
  premiumUsers :: "string set"
  config :: config

text \<open>The environment read by the constructor: \<open>None\<close> is a variable that is unset or
  that \<^verbatim>\<open>parseInt\<close> turns into \<^verbatim>\<open>NaN\<close>; \<open>PREMIUM_USERS\<close> is the list after
  \<^verbatim>\<open>split(',')\<close> (empty when the variable is unset).\<close>

record env =
  USER_REQUESTS_PER_MINUTE :: "int option"
  USER_REQUESTS_PER_HOUR :: "int option"
  GLOBAL_REQUESTS_PER_MINUTE :: "int option"
  GLOBAL_REQUESTS_PER_HOUR :: "int option"
  PREMIUM_USER_REQUESTS_PER_MINUTE :: "int option"
  PREMIUM_USER_REQUESTS_PER_HOUR :: "int option"
  COOLDOWN_PERIOD :: "int option"
  TEMP_BAN_DURATION :: "int option"
  PREMIUM_USERS :: "string list"

text \<open>\<^verbatim>\<open>parseInt(v) || d\<close>: \<^verbatim>\<open>NaN\<close> and \<open>0\<close> are falsy.\<close>

definition orDefault :: "int option \<Rightarrow> int \<Rightarrow> int" where
  "orDefault v d = (case v of None \<Rightarrow> d | Some n \<Rightarrow> if n = 0 then d else n)"

definition newRateLimiter :: "env \<Rightarrow> rateLimiter" where
  "newRateLimiter e =
     \<lparr>userLimits = Map.empty,
      globalLimits = Map.empty,
      tempBans = Map.empty,
      premiumUsers = set (PREMIUM_USERS e),
      config =
        \<lparr>userRequestsPerMinute = orDefault (USER_REQUESTS_PER_MINUTE e) 10,
         userRequestsPerHour = orDefault (USER_REQUESTS_PER_HOUR e) 50,
         globalRequestsPerMinute = orDefault (GLOBAL_REQUESTS_PER_MINUTE e) 100,
         globalRequestsPerHour = orDefault (GLOBAL_REQUESTS_PER_HOUR e) 1000,
         premiumUserRequestsPerMinute = orDefault (PREMIUM_USER_REQUESTS_PER_MINUTE e) 30,
         premiumUserRequestsPerHour = orDefault (PREMIUM_USER_REQUESTS_PER_HOUR e) 200,
         cooldownPeriod = orDefault (COOLDOWN_PERIOD e) 60000,
         tempBanDuration = orDefault (TEMP_BAN_DURATION e) 300000\<rparr>\<rparr>"

subsection \<open>Decisions\<close>

datatype reason =
  temp_ban | temp_ban_applied | minute_limit | hour_limit
  | global_minute_limit | global_hour_limit

datatype number = Num rat | Infinity

record remaining =
  minute :: int
  hour :: int

text \<open>A decision is the returned object: \<^verbatim>\<open>allowed\<close> is the constructor, \<^verbatim>\<open>remaining\<close>
  is \<open>None\<close> where the object has no such property.\<close>

datatype decision =
  Allowed "remaining option"
  | Denied reason number "remaining option"

fun allowed :: "decision \<Rightarrow> bool" where
  "allowed (Allowed r) = True"
| "allowed (Denied rs n r) = False"

fun remainingOf :: "decision \<Rightarrow> remaining option" where
  "remainingOf (Allowed r) = r"
| "remainingOf (Denied rs n r) = r"

datatype error = TypeError

subsection \<open>Helpers of the language\<close>

text \<open>\<^verbatim>\<open>Math.max(...xs)\<close> and \<^verbatim>\<open>Math.min(...xs)\<close>: \<open>None\<close> is the result on no
  arguments, \<^verbatim>\<open>-Infinity\<close> for \<^verbatim>\<open>Math.max\<close> and \<^verbatim>\<open>Infinity\<close> for \<^verbatim>\<open>Math.min\<close>.\<close>

fun Math_max :: "int list \<Rightarrow> int option" where
  "Math_max [] = None"
| "Math_max (x # xs) = Some (fold max xs x)"

fun Math_min :: "int list \<Rightarrow> int option" where
  "Math_min [] = None"
| "Math_min (x # xs) = Some (fold min xs x)"

text \<open>The two windows, as the filters of the source write them.\<close>

definition lastHour :: "int \<Rightarrow> int list \<Rightarrow> int list" where
  "lastHour now ts = filter (\<lambda>time. now - time < 60 * 60 * 1000) ts"

definition lastMinute :: "int \<Rightarrow> int list \<Rightarrow> int list" where
  "lastMinute now ts = filter (\<lambda>time. now - time < 60 * 1000) ts"

subsection \<open>The checks\<close>

definition minuteLimitOf :: "rateLimiter \<Rightarrow> string \<Rightarrow> int" where
  "minuteLimitOf s userId =
     (if userId \<in> premiumUsers s then premiumUserRequestsPerMinute (config s)
      else userRequestsPerMinute (config s))"

definition hourLimitOf :: "rateLimiter \<Rightarrow> string \<Rightarrow> int" where
  "hourLimitOf s userId =
     (if userId \<in> premiumUsers s then premiumUserRequestsPerHour (config s)
      else userRequestsPerHour (config s))"

text \<open>\<^verbatim>\<open>checkUserLimit\<close>. The record is created when absent and its \<^verbatim>\<open>requests\<close> are
  pruned before any decision, so every branch stores the record. With no request in the
  last minute \<^verbatim>\<open>Math.max()\<close> is \<^verbatim>\<open>-Infinity\<close>, \<^verbatim>\<open>retryAfter\<close> is \<^verbatim>\<open>-Infinity\<close> and
  \<^verbatim>\<open>Math.max(retryAfter, 1)\<close> is 1; with no request in the last hour \<^verbatim>\<open>Math.min()\<close> is
  \<^verbatim>\<open>Infinity\<close> and so is \<^verbatim>\<open>Math.max(retryAfter, 1)\<close>.\<close>

definition checkUserLimit :: "rateLimiter \<Rightarrow> string \<Rightarrow> int \<Rightarrow> decision \<times> rateLimiter" where
  "checkUserLimit s userId now =
     (let minuteLimit = minuteLimitOf s userId;
          hourLimit = hourLimitOf s userId;
          userData0 = (case userLimits s userId of
                         None \<Rightarrow> \<lparr>requests = [], violations = 0\<rparr>
                       | Some d \<Rightarrow> d);
          userData = userData0\<lparr>requests := lastHour now (requests userData0)\<rparr>;
          recentMinute = int (length (lastMinute now (requests userData)));
          recentHour = int (length (requests userData))
      in
        if recentMinute \<ge> minuteLimit then
          (let userData' = userData\<lparr>violations := violations userData + 1\<rparr> in
             if violations userData' \<ge> 3 then
               (Denied temp_ban_applied (Num (of_int (tempBanDuration (config s)) / 1000)) None,
                s\<lparr>userLimits := (userLimits s)(userId \<mapsto> userData'),
                  tempBans := (tempBans s)(userId \<mapsto> now + tempBanDuration (config s))\<rparr>)
             else
               (Denied minute_limit
                  (case Math_max (lastMinute now (requests userData')) of
                     None \<Rightarrow> Num 1
                   | Some latest \<Rightarrow>
                       Num (of_int (max (60 - \<lfloor>(of_int (now - latest) :: rat) / 1000\<rfloor>) 1)))
                  (Some \<lparr>minute = 0, hour = hourLimit - recentHour\<rparr>),
                s\<lparr>userLimits := (userLimits s)(userId \<mapsto> userData')\<rparr>))
        else if recentHour \<ge> hourLimit then
          (Denied hour_limit
             (case Math_min (requests userData) of
                None \<Rightarrow> Infinity
              | Some oldestRequest \<Rightarrow>
                  Num (of_int (max (60 * 60 - \<lfloor>(of_int (now - oldestRequest) :: rat) / 1000\<rfloor>) 1)))
             (Some \<lparr>minute = minuteLimit - recentMinute, hour = 0\<rparr>),
           s\<lparr>userLimits := (userLimits s)(userId \<mapsto> userData)\<rparr>)
        else
          (Allowed (Some \<lparr>minute = minuteLimit - recentMinute, hour = hourLimit - recentHour\<rparr>),
           s\<lparr>userLimits := (userLimits s)(userId \<mapsto>
                (if violations userData > 0
                 then userData\<lparr>violations := max 0 (violations userData - 1 / 10)\<rparr>
                 else userData))\<rparr>))"

definition checkGlobalLimit :: "rateLimiter \<Rightarrow> int \<Rightarrow> decision \<times> rateLimiter" where
  "checkGlobalLimit s now =
     (let globalData0 = (case globalLimits s ''global'' of None \<Rightarrow> [] | Some g \<Rightarrow> g);
          globalData = lastHour now globalData0;
          recentMinute = int (length (lastMinute now globalData));
          recentHour = int (length globalData);
          s' = s\<lparr>globalLimits := (globalLimits s)(''global'' \<mapsto> globalData)\<rparr>
      in
        if recentMinute \<ge> globalRequestsPerMinute (config s) then
          (Denied global_minute_limit (Num 60) None, s')
        else if recentHour \<ge> globalRequestsPerHour (config s) then
          (Denied global_hour_limit (Num 3600) None, s')
        else (Allowed None, s'))"

text \<open>\<^verbatim>\<open>recordRequest\<close> and \<^verbatim>\<open>recordGlobalRequest\<close> read a property of the value that
  \<^verbatim>\<open>Map.get\<close> returns: a \<^verbatim>\<open>TypeError\<close> when the key is absent.\<close>

definition recordRequest :: "rateLimiter \<Rightarrow> string \<Rightarrow> int \<Rightarrow> error + rateLimiter" where
  "recordRequest s userId timestamp =
     (case userLimits s userId of
        None \<Rightarrow> Inl TypeError
      | Some userData \<Rightarrow>
          Inr (s\<lparr>userLimits := (userLimits s)(userId \<mapsto>
                 userData\<lparr>requests := requests userData @ [timestamp]\<rparr>)\<rparr>))"

definition recordGlobalRequest :: "rateLimiter \<Rightarrow> int \<Rightarrow> error + rateLimiter" where
  "recordGlobalRequest s timestamp =
     (case globalLimits s ''global'' of
        None \<Rightarrow> Inl TypeError
      | Some globalData \<Rightarrow>
          Inr (s\<lparr>globalLimits := (globalLimits s)(''global'' \<mapsto> globalData @ [timestamp])\<rparr>))"

text \<open>\<^verbatim>\<open>checkRateLimit\<close>: the ban check, then the part after it (\<open>checkQuotas\<close>, lines 45
  to 58 of the source).\<close>

definition checkQuotas :: "rateLimiter \<Rightarrow> string \<Rightarrow> int \<Rightarrow> error + decision \<times> rateLimiter" where
  "checkQuotas s userId now =
     (case checkUserLimit s userId now of (userCheck, s1) \<Rightarrow>
        if \<not> allowed userCheck then Inr (userCheck, s1)
        else
          (case checkGlobalLimit s1 now of (globalCheck, s2) \<Rightarrow>
             if \<not> allowed globalCheck then Inr (globalCheck, s2)
             else
               (case recordRequest s2 userId now of
                  Inl e \<Rightarrow> Inl e
                | Inr s3 \<Rightarrow>
                    (case recordGlobalRequest s3 now of
                       Inl e \<Rightarrow> Inl e
                     | Inr s4 \<Rightarrow> Inr (Allowed None, s4)))))"

definition checkRateLimit :: "rateLimiter \<Rightarrow> string \<Rightarrow> int \<Rightarrow> error + decision \<times> rateLimiter" where
  "checkRateLimit s userId now =
     (case tempBans s userId of
        Some banExpiry \<Rightarrow>
          if now < banExpiry then
            Inr (Denied temp_ban
                   (Num (of_int \<lceil>(of_int (banExpiry - now) :: rat) / 1000\<rceil>)) None, s)
          else checkQuotas (s\<lparr>tempBans := (tempBans s)(userId := None)\<rparr>) userId now
      | None \<Rightarrow> checkQuotas s userId now)"

subsection \<open>The sweep and the administrative operations\<close>

text \<open>\<^verbatim>\<open>cleanup\<close> visits every entry of \<^verbatim>\<open>userLimits\<close> and of \<^verbatim>\<open>tempBans\<close>; what it
  does at one entry depends on that entry alone, so the loops are written pointwise.\<close>

definition cleanup :: "rateLimiter \<Rightarrow> int \<Rightarrow> rateLimiter" where
  "cleanup s now =
     (let oneHourAgo = now - 60 * 60 * 1000 in
        s\<lparr>userLimits := (\<lambda>userId.
             case userLimits s userId of
               None \<Rightarrow> None
             | Some userData \<Rightarrow>
                 (let userData' =
                        userData\<lparr>requests := filter (\<lambda>time. time > oneHourAgo) (requests userData)\<rparr>
                  in if length (requests userData') = 0 \<and> violations userData' = 0
                     then None else Some userData')),
          globalLimits :=
            (case globalLimits s ''global'' of
               None \<Rightarrow> globalLimits s
             | Some globalData \<Rightarrow>
                 (globalLimits s)(''global'' \<mapsto> filter (\<lambda>time. time > oneHourAgo) globalData)),
          tempBans := (\<lambda>userId.
             case tempBans s userId of
               None \<Rightarrow> None
             | Some expiry \<Rightarrow> if now > expiry then None else Some expiry)\<rparr>)"

record usage =
  used :: int
  limit :: int

record userStats =
  isPremium :: bool
  usageMinute :: usage
  usageHour :: usage
  statsViolations :: rat
  tempBanned :: bool

text \<open>\<^verbatim>\<open>getUserStats\<close> writes nothing; it is modelled with the limiter it leaves.\<close>

definition getUserStats :: "rateLimiter \<Rightarrow> string \<Rightarrow> int \<Rightarrow> userStats \<times> rateLimiter" where
  "getUserStats s userId now =
     (let userData = (case userLimits s userId of
                        None \<Rightarrow> \<lparr>requests = [], violations = 0\<rparr>
                      | Some d \<Rightarrow> d);
          recentMinute = int (length (lastMinute now (requests userData)));
          recentHour = int (length (lastHour now (requests userData)))
      in
        (\<lparr>isPremium = (userId \<in> premiumUsers s),
          usageMinute = \<lparr>used = recentMinute, limit = minuteLimitOf s userId\<rparr>,
          usageHour = \<lparr>used = recentHour, limit = hourLimitOf s userId\<rparr>,
          statsViolations = violations userData,
          tempBanned = (tempBans s userId \<noteq> None)\<rparr>,
         s))"

definition addPremiumUser :: "rateLimiter \<Rightarrow> string \<Rightarrow> rateLimiter" where
  "addPremiumUser s userId = s\<lparr>premiumUsers := insert userId (premiumUsers s)\<rparr>"

definition removePremiumUser :: "rateLimiter \<Rightarrow> string \<Rightarrow> rateLimiter" where
  "removePremiumUser s userId = s\<lparr>premiumUsers := premiumUsers s - {userId}\<rparr>"

definition clearUserLimits :: "rateLimiter \<Rightarrow> string \<Rightarrow> rateLimiter" where
  "clearUserLimits s userId =
     s\<lparr>userLimits := (userLimits s)(userId := None),
       tempBans := (tempBans s)(userId := None)\<rparr>"

subsection \<open>Reading the ledger\<close>

text \<open>What the limiter holds for a caller, with the defaults of the source for a caller
  without a record (\<^verbatim>\<open>{ requests: [], violations: 0 }\<close>), and the counts that the checks
  compare with the quotas.\<close>

definition requestsOf :: "rateLimiter \<Rightarrow> string \<Rightarrow> int list" where
  "requestsOf s userId = (case userLimits s userId of None \<Rightarrow> [] | Some d \<Rightarrow> requests d)"

definition violationsOf :: "rateLimiter \<Rightarrow> string \<Rightarrow> rat" where
  "violationsOf s userId = (case userLimits s userId of None \<Rightarrow> 0 | Some d \<Rightarrow> violations d)"

definition globalRequests :: "rateLimiter \<Rightarrow> int list" where
  "globalRequests s = (case globalLimits s ''global'' of None \<Rightarrow> [] | Some g \<Rightarrow> g)"

definition minuteCount :: "rateLimiter \<Rightarrow> string \<Rightarrow> int \<Rightarrow> int" where
  "minuteCount s userId now = int (length (lastMinute now (requestsOf s userId)))"

definition hourCount :: "rateLimiter \<Rightarrow> string \<Rightarrow> int \<Rightarrow> int" where
  "hourCount s userId now = int (length (lastHour now (requestsOf s userId)))"

definition globalMinuteCount :: "rateLimiter \<Rightarrow> int \<Rightarrow> int" where
  "globalMinuteCount s now = int (length (lastMinute now (globalRequests s)))"

definition globalHourCount :: "rateLimiter \<Rightarrow> int \<Rightarrow> int" where
  "globalHourCount s now = int (length (lastHour now (globalRequests s)))"

definition activeBan :: "rateLimiter \<Rightarrow> string \<Rightarrow> int \<Rightarrow> bool" where
  "activeBan s userId now = (case tempBans s userId of None \<Rightarrow> False | Some e \<Rightarrow> now < e)"

definition clearBan :: "rateLimiter \<Rightarrow> string \<Rightarrow> rateLimiter" where
  "clearBan s userId = s\<lparr>tempBans := (tempBans s)(userId := None)\<rparr>"

fun reasonOf :: "decision \<Rightarrow> reason option" where
  "reasonOf (Allowed r) = None"
| "reasonOf (Denied rs n r) = Some rs"

fun retryAfter :: "decision \<Rightarrow> number option" where
  "retryAfter (Allowed r) = None"
| "retryAfter (Denied rs n r) = Some n"

text \<open>The two conditions under which the checks pass.\<close>

definition userPasses :: "rateLimiter \<Rightarrow> string \<Rightarrow> int \<Rightarrow> bool" where
  "userPasses s userId now \<longleftrightarrow>
     minuteCount s userId now < minuteLimitOf s userId \<and>
     hourCount s userId now < hourLimitOf s userId"

definition globalPasses :: "rateLimiter \<Rightarrow> int \<Rightarrow> bool" where
  "globalPasses s now \<longleftrightarrow>
     globalMinuteCount s now < globalRequestsPerMinute (config s) \<and>
     globalHourCount s now < globalRequestsPerHour (config s)"

subsection \<open>Sequences of calls\<close>

text \<open>The operations of the class as calls, run one after the other from a limiter. The
  error is the \<^verbatim>\<open>TypeError\<close> of \<^verbatim>\<open>recordRequest\<close>.\<close>

datatype call =
  CheckRateLimit string int
  | Cleanup int
  | GetUserStats string int
  | AddPremiumUser string
  | RemovePremiumUser string
  | ClearUserLimits string

text \<open>The history lists the calls of \<^verbatim>\<open>checkRateLimit\<close> in order, each with its caller, its
  instant and its decision. It is not part of the program: it is what an observer of the
  calls writes down.\<close>

type_synonym history = "(string \<times> int \<times> decision) list"

fun exec :: "rateLimiter \<times> history \<Rightarrow> call \<Rightarrow> error + rateLimiter \<times> history" where
  "exec (s, h) (CheckRateLimit userId now) =
     (case checkRateLimit s userId now of
        Inl e \<Rightarrow> Inl e
      | Inr (d, s') \<Rightarrow> Inr (s', h @ [(userId, now, d)]))"
| "exec (s, h) (Cleanup now) = Inr (cleanup s now, h)"
| "exec (s, h) (GetUserStats userId now) = Inr (snd (getUserStats s userId now), h)"
| "exec (s, h) (AddPremiumUser userId) = Inr (addPremiumUser s userId, h)"
| "exec (s, h) (RemovePremiumUser userId) = Inr (removePremiumUser s userId, h)"
| "exec (s, h) (ClearUserLimits userId) = Inr (clearUserLimits s userId, h)"

fun run :: "rateLimiter \<times> history \<Rightarrow> call list \<Rightarrow> error + rateLimiter \<times> history" where
  "run st [] = Inr st"
| "run st (c # cs) = (case exec st c of Inl e \<Rightarrow> Inl e | Inr st' \<Rightarrow> run st' cs)"



text \<open>The instants of the admitted calls, of one caller and of all callers; the window of
  the given width that ends at \<open>T\<close>, the instants \<open>t\<close> with \<open>T - width < t \<le> T\<close>; and
  quotas that are counts.\<close>

definition admitted :: "history \<Rightarrow> string \<Rightarrow> int list" where
  "admitted h userId = map (fst \<circ> snd) (filter (\<lambda>(u, now, d). u = userId \<and> allowed d) h)"

definition admittedAll :: "history \<Rightarrow> int list" where
  "admittedAll h = map (fst \<circ> snd) (filter (\<lambda>(u, now, d). allowed d) h)"

definition trailing :: "int \<Rightarrow> int \<Rightarrow> int list \<Rightarrow> int list" where
  "trailing width T ts = filter (\<lambda>t. t \<le> T \<and> T - t < width) ts"


text \<open>Invariants of the limiter, used in the proofs: a caller with a ban record has a
  caller record with at least three violations.\<close>

definition bansHaveRecords :: "rateLimiter \<Rightarrow> bool" where
  "bansHaveRecords s \<longleftrightarrow>
     (\<forall>u. tempBans s u \<noteq> None \<longrightarrow> userLimits s u \<noteq> None \<and> 3 \<le> violationsOf s u)"

text \<open>The ledger agrees with the history: from the instant \<open>n\<close> on, the trailing hour of
  each stored history is the trailing hour of the admitted calls, and the admitted calls
  are within the quotas in every window.\<close>

definition ledgerInv :: "int \<Rightarrow> rateLimiter \<Rightarrow> history \<Rightarrow> bool" where
  "ledgerInv n s h \<longleftrightarrow>
     (\<forall>u T. n \<le> T \<longrightarrow> lastHour T (requestsOf s u) = lastHour T (admitted h u))
   \<and> (\<forall>T. n \<le> T \<longrightarrow> lastHour T (globalRequests s) = lastHour T (admittedAll h))
   \<and> (\<forall>u T. int (length (trailing 60000 T (admitted h u))) \<le> minuteLimitOf s u
           \<and> int (length (trailing 3600000 T (admitted h u))) \<le> hourLimitOf s u)
   \<and> (\<forall>T. int (length (trailing 60000 T (admittedAll h))) \<le> globalRequestsPerMinute (config s)
         \<and> int (length (trailing 3600000 T (admittedAll h)))
             \<le> globalRequestsPerHour (config s))"

text \<open>A retry hint of at least one second.\<close>

fun atLeastOne :: "number \<Rightarrow> bool" where
  "atLeastOne (Num n) = (1 \<le> n)"
| "atLeastOne Infinity = True"

subsection \<open>Concrete limiters\<close>

text \<open>An environment that sets the quotas of standard callers to 2 a minute and 3 an
  hour and the global quota to 3 a minute, and names one premium caller. The limiters
  below are built from it:
  \<^item> \<open>warnedLimiter\<close>: the caller \<open>u\<close> was admitted at 100 and 200 and breached the minute
    quota twice;
  \<^item> \<open>bannedLimiter\<close>: the same caller after a third breach at 1000, banned until 301000;
  \<^item> \<open>hourlyLimiter\<close>: \<open>u\<close> was admitted at 100, 200 and 70000;
  \<^item> \<open>breachedLimiter\<close>: \<open>u\<close> was admitted at 100 and 200 and breached the minute quota
    once;
  \<^item> \<open>busyLimiter\<close>: the same, and then the premium caller was admitted at 60500, 60600
    and 60700.
  Each is the limiter that a sequence of calls on a fresh limiter leaves
  (\<open>concrete_limiters_reached\<close> below).\<close>

definition env1 :: env where
  "env1 =
     \<lparr>USER_REQUESTS_PER_MINUTE = Some 2, USER_REQUESTS_PER_HOUR = Some 3,
      GLOBAL_REQUESTS_PER_MINUTE = Some 3, GLOBAL_REQUESTS_PER_HOUR = None,
      PREMIUM_USER_REQUESTS_PER_MINUTE = None, PREMIUM_USER_REQUESTS_PER_HOUR = None,
      COOLDOWN_PERIOD = None, TEMP_BAN_DURATION = None, PREMIUM_USERS = [''vip'']\<rparr>"

definition warnedLimiter :: rateLimiter where
  "warnedLimiter =
     (newRateLimiter env1)
       \<lparr>userLimits := [''u'' \<mapsto> \<lparr>requests = [100, 200], violations = 2\<rparr>],
        globalLimits := [''global'' \<mapsto> [100, 200]]\<rparr>"

definition bannedLimiter :: rateLimiter where
  "bannedLimiter =
     (newRateLimiter env1)
       \<lparr>userLimits := [''u'' \<mapsto> \<lparr>requests = [100, 200], violations = 3\<rparr>],
        globalLimits := [''global'' \<mapsto> [100, 200]],
        tempBans := [''u'' \<mapsto> 301000]\<rparr>"

definition hourlyLimiter :: rateLimiter where
  "hourlyLimiter =
     (newRateLimiter env1)
       \<lparr>userLimits := [''u'' \<mapsto> \<lparr>requests = [100, 200, 70000], violations = 0\<rparr>],
        globalLimits := [''global'' \<mapsto> [100, 200, 70000]]\<rparr>"

definition breachedLimiter :: rateLimiter where
  "breachedLimiter =
     (newRateLimiter env1)
       \<lparr>userLimits := [''u'' \<mapsto> \<lparr>requests = [100, 200], violations = 1\<rparr>],
        globalLimits := [''global'' \<mapsto> [100, 200]]\<rparr>"

definition busyLimiter :: rateLimiter where
  "busyLimiter =
     (newRateLimiter env1)
       \<lparr>userLimits := [''u'' \<mapsto> \<lparr>requests = [100, 200], violations = 1\<rparr>,
                       ''vip'' \<mapsto> \<lparr>requests = [60500, 60600, 60700], violations = 0\<rparr>],
        globalLimits := [''global'' \<mapsto> [100, 200, 60500, 60600, 60700]]\<rparr>"

text \<open>A sequence of calls on a fresh limiter: \<open>u\<close> is admitted twice and denied once,
  the sweep runs, the premium caller is admitted, and \<open>a\<close> meets the global quota.\<close>

definition trace1 :: "call list" where
  "trace1 =
     [CheckRateLimit ''u'' 100, CheckRateLimit ''u'' 200, CheckRateLimit ''u'' 300,
      Cleanup 400, CheckRateLimit ''vip'' 500, GetUserStats ''u'' 600,
      CheckRateLimit ''a'' 700]"

section \<open>Properties\<close>

subsection \<open>Arithmetic and windows\<close>

lemma lastMinute_lastHour: "lastMinute now (lastHour now ts) = lastMinute now ts"
  by (induction ts) (auto simp: lastMinute_def lastHour_def)

lemma floor_div_1000: "\<lfloor>(of_int k :: rat) / 1000\<rfloor> = k div 1000"
  using floor_divide_of_int_eq[of k 1000, where ?'a = rat] by simp

lemmas accessors =
  requestsOf_def violationsOf_def globalRequests_def minuteCount_def hourCount_def
  globalMinuteCount_def globalHourCount_def

subsection \<open>The four branches of \<^verbatim>\<open>checkUserLimit\<close>\<close>

lemma floor_diff_div_1000: "\<lfloor>(of_int a - of_int b :: rat) / 1000\<rfloor> = (a - b) div 1000"
  using floor_div_1000[of "a - b"] by simp

lemma checkUserLimit_ban:
  assumes "minuteLimitOf s u \<le> minuteCount s u now" "3 \<le> violationsOf s u + 1"
  shows "checkUserLimit s u now =
    (Denied temp_ban_applied (Num (of_int (tempBanDuration (config s)) / 1000)) None,
     s\<lparr>userLimits := (userLimits s)(u \<mapsto>
          \<lparr>requests = lastHour now (requestsOf s u), violations = violationsOf s u + 1\<rparr>),
       tempBans := (tempBans s)(u \<mapsto> now + tempBanDuration (config s))\<rparr>)"
  using assms
  by (cases "userLimits s u"; (cases "the (userLimits s u)")?)
     (simp_all add: checkUserLimit_def Let_def accessors lastMinute_lastHour)

lemma checkUserLimit_minute:
  assumes "minuteLimitOf s u \<le> minuteCount s u now" "\<not> 3 \<le> violationsOf s u + 1"
  shows "checkUserLimit s u now =
    (Denied minute_limit
       (case Math_max (lastMinute now (requestsOf s u)) of
          None \<Rightarrow> Num 1
        | Some latest \<Rightarrow> Num (of_int (max (60 - (now - latest) div 1000) 1)))
       (Some \<lparr>minute = 0, hour = hourLimitOf s u - hourCount s u now\<rparr>),
     s\<lparr>userLimits := (userLimits s)(u \<mapsto>
          \<lparr>requests = lastHour now (requestsOf s u), violations = violationsOf s u + 1\<rparr>)\<rparr>)"
  using assms
  by (cases "userLimits s u"; (cases "the (userLimits s u)")?)
     (simp_all add: checkUserLimit_def Let_def accessors lastMinute_lastHour floor_diff_div_1000
        split: option.split)

lemma checkUserLimit_hour:
  assumes "\<not> minuteLimitOf s u \<le> minuteCount s u now" "hourLimitOf s u \<le> hourCount s u now"
  shows "checkUserLimit s u now =
    (Denied hour_limit
       (case Math_min (lastHour now (requestsOf s u)) of
          None \<Rightarrow> Infinity
        | Some oldest \<Rightarrow> Num (of_int (max (3600 - (now - oldest) div 1000) 1)))
       (Some \<lparr>minute = minuteLimitOf s u - minuteCount s u now, hour = 0\<rparr>),
     s\<lparr>userLimits := (userLimits s)(u \<mapsto>
          \<lparr>requests = lastHour now (requestsOf s u), violations = violationsOf s u\<rparr>)\<rparr>)"
  using assms
  by (cases "userLimits s u"; (cases "the (userLimits s u)")?)
     (simp_all add: checkUserLimit_def Let_def accessors lastMinute_lastHour floor_diff_div_1000
        split: option.split)

lemma checkUserLimit_pass:
  assumes "\<not> minuteLimitOf s u \<le> minuteCount s u now" "\<not> hourLimitOf s u \<le> hourCount s u now"
  shows "checkUserLimit s u now =
    (Allowed (Some \<lparr>minute = minuteLimitOf s u - minuteCount s u now,
                     hour = hourLimitOf s u - hourCount s u now\<rparr>),
     s\<lparr>userLimits := (userLimits s)(u \<mapsto>
          \<lparr>requests = lastHour now (requestsOf s u),
           violations = (if violationsOf s u > 0 then max 0 (violationsOf s u - 1 / 10)
                         else violationsOf s u)\<rparr>)\<rparr>)"
  using assms
  by (cases "userLimits s u"; (cases "the (userLimits s u)")?)
     (simp_all add: checkUserLimit_def Let_def accessors lastMinute_lastHour)

subsection \<open>What \<^verbatim>\<open>checkUserLimit\<close> does\<close>

lemma checkUserLimit_effect:
  shows checkUserLimit_globalLimits: "globalLimits (snd (checkUserLimit s u now)) = globalLimits s"
    and checkUserLimit_config: "config (snd (checkUserLimit s u now)) = config s"
    and checkUserLimit_premiumUsers: "premiumUsers (snd (checkUserLimit s u now)) = premiumUsers s"
    and checkUserLimit_others:
      "u' \<noteq> u \<Longrightarrow> userLimits (snd (checkUserLimit s u now)) u' = userLimits s u'"
    and checkUserLimit_other_bans:
      "u' \<noteq> u \<Longrightarrow> tempBans (snd (checkUserLimit s u now)) u' = tempBans s u'"
    and checkUserLimit_record: "userLimits (snd (checkUserLimit s u now)) u \<noteq> None"
    and checkUserLimit_requests:
      "requestsOf (snd (checkUserLimit s u now)) u = lastHour now (requestsOf s u)"
proof -
  consider (ban) "minuteLimitOf s u \<le> minuteCount s u now" "3 \<le> violationsOf s u + 1"
    | (minute) "minuteLimitOf s u \<le> minuteCount s u now" "\<not> 3 \<le> violationsOf s u + 1"
    | (hour) "\<not> minuteLimitOf s u \<le> minuteCount s u now" "hourLimitOf s u \<le> hourCount s u now"
    | (pass) "\<not> minuteLimitOf s u \<le> minuteCount s u now"
        "\<not> hourLimitOf s u \<le> hourCount s u now"
    by blast
  then have "globalLimits (snd (checkUserLimit s u now)) = globalLimits s
      \<and> config (snd (checkUserLimit s u now)) = config s
      \<and> premiumUsers (snd (checkUserLimit s u now)) = premiumUsers s
      \<and> (u' \<noteq> u \<longrightarrow> userLimits (snd (checkUserLimit s u now)) u' = userLimits s u')
      \<and> (u' \<noteq> u \<longrightarrow> tempBans (snd (checkUserLimit s u now)) u' = tempBans s u')
      \<and> userLimits (snd (checkUserLimit s u now)) u \<noteq> None
      \<and> requestsOf (snd (checkUserLimit s u now)) u = lastHour now (requestsOf s u)"
  proof cases
    case ban then show ?thesis by (simp add: checkUserLimit_ban requestsOf_def)
  next
    case minute then show ?thesis by (simp add: checkUserLimit_minute requestsOf_def)
  next
    case hour then show ?thesis by (simp add: checkUserLimit_hour requestsOf_def)
  next
    case pass then show ?thesis by (simp add: checkUserLimit_pass requestsOf_def)
  qed
  then show "globalLimits (snd (checkUserLimit s u now)) = globalLimits s"
    "config (snd (checkUserLimit s u now)) = config s"
    "premiumUsers (snd (checkUserLimit s u now)) = premiumUsers s"
    "u' \<noteq> u \<Longrightarrow> userLimits (snd (checkUserLimit s u now)) u' = userLimits s u'"
    "u' \<noteq> u \<Longrightarrow> tempBans (snd (checkUserLimit s u now)) u' = tempBans s u'"
    "userLimits (snd (checkUserLimit s u now)) u \<noteq> None"
    "requestsOf (snd (checkUserLimit s u now)) u = lastHour now (requestsOf s u)"
    by blast+
qed

lemma checkUserLimit_allowed:
  "allowed (fst (checkUserLimit s u now)) \<longleftrightarrow>
     minuteCount s u now < minuteLimitOf s u \<and> hourCount s u now < hourLimitOf s u"
proof (cases "minuteLimitOf s u \<le> minuteCount s u now")
  case True
  then show ?thesis
    by (cases "3 \<le> violationsOf s u + 1") (simp_all add: checkUserLimit_ban checkUserLimit_minute)
next
  case False
  then show ?thesis
    by (cases "hourLimitOf s u \<le> hourCount s u now")
       (simp_all add: checkUserLimit_hour checkUserLimit_pass)
qed

lemma checkUserLimit_violations:
  "violationsOf (snd (checkUserLimit s u now)) u =
     (if minuteLimitOf s u \<le> minuteCount s u now then violationsOf s u + 1
      else if hourLimitOf s u \<le> hourCount s u now then violationsOf s u
      else if violationsOf s u > 0 then max 0 (violationsOf s u - 1 / 10)
      else violationsOf s u)"
proof (cases "minuteLimitOf s u \<le> minuteCount s u now")
  case True
  then show ?thesis
    by (cases "3 \<le> violationsOf s u + 1")
       (simp_all add: checkUserLimit_ban checkUserLimit_minute violationsOf_def)
next
  case False
  then show ?thesis
    by (cases "hourLimitOf s u \<le> hourCount s u now")
       (simp_all add: checkUserLimit_hour checkUserLimit_pass violationsOf_def)
qed

lemma checkUserLimit_tempBans:
  "tempBans (snd (checkUserLimit s u now)) u =
     (if minuteLimitOf s u \<le> minuteCount s u now \<and> 3 \<le> violationsOf s u + 1
      then Some (now + tempBanDuration (config s)) else tempBans s u)"
proof (cases "minuteLimitOf s u \<le> minuteCount s u now")
  case True
  then show ?thesis
    by (cases "3 \<le> violationsOf s u + 1") (simp_all add: checkUserLimit_ban checkUserLimit_minute)
next
  case False
  then show ?thesis
    by (cases "hourLimitOf s u \<le> hourCount s u now")
       (simp_all add: checkUserLimit_hour checkUserLimit_pass)
qed

subsection \<open>What \<^verbatim>\<open>checkGlobalLimit\<close> does\<close>

lemma checkGlobalLimit_snd:
  "snd (checkGlobalLimit s now) =
     s\<lparr>globalLimits := (globalLimits s)(''global'' \<mapsto> lastHour now (globalRequests s))\<rparr>"
  by (simp add: checkGlobalLimit_def Let_def globalRequests_def)

lemma checkGlobalLimit_fst:
  "fst (checkGlobalLimit s now) =
     (if globalRequestsPerMinute (config s) \<le> globalMinuteCount s now
      then Denied global_minute_limit (Num 60) None
      else if globalRequestsPerHour (config s) \<le> globalHourCount s now
      then Denied global_hour_limit (Num 3600) None
      else Allowed None)"
  by (simp add: checkGlobalLimit_def Let_def accessors lastMinute_lastHour)

lemma checkGlobalLimit_allowed:
  "allowed (fst (checkGlobalLimit s now)) \<longleftrightarrow>
     globalMinuteCount s now < globalRequestsPerMinute (config s) \<and>
     globalHourCount s now < globalRequestsPerHour (config s)"
  by (simp add: checkGlobalLimit_fst)

lemma checkGlobalLimit_requests:
  "globalRequests (snd (checkGlobalLimit s now)) = lastHour now (globalRequests s)"
  by (simp add: checkGlobalLimit_snd globalRequests_def)

subsection \<open>The paths through \<^verbatim>\<open>checkRateLimit\<close>\<close>

lemma checkQuotas_user_denied:
  assumes "\<not> allowed (fst (checkUserLimit s u now))"
  shows "checkQuotas s u now = Inr (checkUserLimit s u now)"
  using assms by (cases "checkUserLimit s u now") (simp add: checkQuotas_def)

lemma checkQuotas_global_denied:
  assumes "allowed (fst (checkUserLimit s u now))"
    "\<not> allowed (fst (checkGlobalLimit (snd (checkUserLimit s u now)) now))"
  shows "checkQuotas s u now = Inr (checkGlobalLimit (snd (checkUserLimit s u now)) now)"
  using assms
  by (cases "checkUserLimit s u now"; cases "checkGlobalLimit (snd (checkUserLimit s u now)) now")
     (simp add: checkQuotas_def)

lemma checkQuotas_admitted:
  assumes "allowed (fst (checkUserLimit s u now))"
    "allowed (fst (checkGlobalLimit (snd (checkUserLimit s u now)) now))"
  shows "checkQuotas s u now =
    Inr (Allowed None,
         (snd (checkUserLimit s u now))
           \<lparr>globalLimits := (globalLimits s)(''global'' \<mapsto> lastHour now (globalRequests s) @ [now]),
            userLimits := (userLimits (snd (checkUserLimit s u now)))(u \<mapsto>
               \<lparr>requests = lastHour now (requestsOf s u) @ [now],
                violations = violationsOf (snd (checkUserLimit s u now)) u\<rparr>)\<rparr>)"
proof -
  obtain d1 s1 where c1: "checkUserLimit s u now = (d1, s1)" by (cases "checkUserLimit s u now")
  obtain d2 s2 where c2: "checkGlobalLimit s1 now = (d2, s2)" by (cases "checkGlobalLimit s1 now")
  from checkUserLimit_record[of s u now] c1 obtain ud where ud: "userLimits s1 u = Some ud"
    by auto
  have r: "requests ud = lastHour now (requestsOf s u)"
    using checkUserLimit_requests[of s u now] c1 ud by (simp add: requestsOf_def)
  have v: "violations ud = violationsOf s1 u" using ud by (simp add: violationsOf_def)
  have s2: "s2 = s1\<lparr>globalLimits := (globalLimits s1)(''global'' \<mapsto> lastHour now (globalRequests s1))\<rparr>"
    using checkGlobalLimit_snd[of s1 now] c2 by simp
  have g: "globalLimits s1 = globalLimits s" "globalRequests s1 = globalRequests s"
    using checkUserLimit_globalLimits[of s u now] c1 by (simp_all add: globalRequests_def)
  show ?thesis
    using assms c1 c2 ud r v g
    by (cases ud) (simp add: checkQuotas_def recordRequest_def recordGlobalRequest_def s2)
qed

lemma checkRateLimit_banned:
  assumes "tempBans s u = Some e" "now < e"
  shows "checkRateLimit s u now =
    Inr (Denied temp_ban (Num (of_int \<lceil>(of_int (e - now) :: rat) / 1000\<rceil>)) None, s)"
  using assms by (simp add: checkRateLimit_def)

lemma checkRateLimit_unbanned:
  assumes "\<not> activeBan s u now"
  shows "checkRateLimit s u now = checkQuotas (clearBan s u) u now"
proof (cases "tempBans s u")
  case None
  then have "(tempBans s)(u := None) = tempBans s" by (auto simp: fun_eq_iff)
  then have "clearBan s u = s" by (simp add: clearBan_def)
  then show ?thesis using None by (simp add: checkRateLimit_def)
next
  case (Some e)
  then show ?thesis using assms by (simp add: checkRateLimit_def activeBan_def clearBan_def)
qed

lemma clearBan_simps [simp]:
  "userLimits (clearBan s u) = userLimits s" "globalLimits (clearBan s u) = globalLimits s"
  "config (clearBan s u) = config s" "premiumUsers (clearBan s u) = premiumUsers s"
  "tempBans (clearBan s u) = (tempBans s)(u := None)"
  "requestsOf (clearBan s u) = requestsOf s" "violationsOf (clearBan s u) = violationsOf s"
  "globalRequests (clearBan s u) = globalRequests s"
  "minuteCount (clearBan s u) = minuteCount s" "hourCount (clearBan s u) = hourCount s"
  "globalMinuteCount (clearBan s u) = globalMinuteCount s"
  "globalHourCount (clearBan s u) = globalHourCount s"
  "minuteLimitOf (clearBan s u) = minuteLimitOf s" "hourLimitOf (clearBan s u) = hourLimitOf s"
  by (simp_all add: clearBan_def accessors minuteLimitOf_def hourLimitOf_def fun_eq_iff)

lemma checkUserLimit_global_counts [simp]:
  "globalRequests (snd (checkUserLimit s u now)) = globalRequests s"
  "globalMinuteCount (snd (checkUserLimit s u now)) = globalMinuteCount s"
  "globalHourCount (snd (checkUserLimit s u now)) = globalHourCount s"
  "globalPasses (snd (checkUserLimit s u now)) = globalPasses s"
  by (simp_all add: globalRequests_def globalMinuteCount_def globalHourCount_def
      globalPasses_def checkUserLimit_globalLimits checkUserLimit_config fun_eq_iff)

lemma clearBan_passes [simp]:
  "userPasses (clearBan s u) = userPasses s" "globalPasses (clearBan s u) = globalPasses s"
  by (simp_all add: userPasses_def globalPasses_def fun_eq_iff)

lemma checkRateLimit_cases:
  obtains
    (banned) e where "tempBans s u = Some e" "now < e"
      "checkRateLimit s u now =
         Inr (Denied temp_ban (Num (of_int \<lceil>(of_int (e - now) :: rat) / 1000\<rceil>)) None, s)"
  | (user_denied) "\<not> activeBan s u now" "\<not> userPasses s u now"
      "\<not> allowed (fst (checkUserLimit (clearBan s u) u now))"
      "checkRateLimit s u now = Inr (checkUserLimit (clearBan s u) u now)"
  | (global_denied) "\<not> activeBan s u now" "userPasses s u now" "\<not> globalPasses s now"
      "\<not> allowed (fst (checkGlobalLimit (snd (checkUserLimit (clearBan s u) u now)) now))"
      "checkRateLimit s u now =
         Inr (checkGlobalLimit (snd (checkUserLimit (clearBan s u) u now)) now)"
  | (admitted) "\<not> activeBan s u now" "userPasses s u now" "globalPasses s now"
      "checkRateLimit s u now =
         Inr (Allowed None,
           (snd (checkUserLimit (clearBan s u) u now))
             \<lparr>globalLimits :=
                (globalLimits s)(''global'' \<mapsto> lastHour now (globalRequests s) @ [now]),
              userLimits := (userLimits (snd (checkUserLimit (clearBan s u) u now)))(u \<mapsto>
                \<lparr>requests = lastHour now (requestsOf s u) @ [now],
                 violations = violationsOf (snd (checkUserLimit (clearBan s u) u now)) u\<rparr>)\<rparr>)"
proof (cases "activeBan s u now")
  case True
  then obtain e where "tempBans s u = Some e" "now < e"
    by (auto simp: activeBan_def split: option.splits)
  then show ?thesis using banned checkRateLimit_banned by blast
next
  case nb: False
  note r = checkRateLimit_unbanned[OF nb]
  let ?s = "clearBan s u"
  show ?thesis
  proof (cases "userPasses s u now")
    case False
    then have na: "\<not> allowed (fst (checkUserLimit ?s u now))"
      by (simp add: checkUserLimit_allowed userPasses_def)
    show ?thesis using user_denied[OF nb False na] r checkQuotas_user_denied[OF na] by simp
  next
    case up: True
    then have a: "allowed (fst (checkUserLimit ?s u now))"
      by (simp add: checkUserLimit_allowed userPasses_def)
    show ?thesis
    proof (cases "globalPasses s now")
      case False
      then have ng: "\<not> allowed (fst (checkGlobalLimit (snd (checkUserLimit ?s u now)) now))"
        using checkGlobalLimit_allowed[of "snd (checkUserLimit ?s u now)" now]
        by (simp add: globalPasses_def checkUserLimit_config)
      show ?thesis
        using global_denied[OF nb up False ng] r checkQuotas_global_denied[OF a ng] by simp
    next
      case gp: True
      then have g: "allowed (fst (checkGlobalLimit (snd (checkUserLimit ?s u now)) now))"
        using checkGlobalLimit_allowed[of "snd (checkUserLimit ?s u now)" now]
        by (simp add: globalPasses_def checkUserLimit_config)
      show ?thesis
        using admitted[OF nb up gp] r checkQuotas_admitted[OF a g] by simp
    qed
  qed
qed

lemma checkRateLimit_total: "\<exists>d s'. checkRateLimit s u now = Inr (d, s')"
proof (rule checkRateLimit_cases[of s u now])
  fix e assume "checkRateLimit s u now =
      Inr (Denied temp_ban (Num (of_int \<lceil>(of_int (e - now) :: rat) / 1000\<rceil>)) None, s)"
  then show ?thesis by blast
next
  assume "checkRateLimit s u now = Inr (checkUserLimit (clearBan s u) u now)"
  then show ?thesis by (cases "checkUserLimit (clearBan s u) u now") simp
next
  assume "checkRateLimit s u now =
      Inr (checkGlobalLimit (snd (checkUserLimit (clearBan s u) u now)) now)"
  then show ?thesis
    by (cases "checkGlobalLimit (snd (checkUserLimit (clearBan s u) u now)) now") simp
next
  assume "checkRateLimit s u now =
         Inr (Allowed None,
           (snd (checkUserLimit (clearBan s u) u now))
             \<lparr>globalLimits :=
                (globalLimits s)(''global'' \<mapsto> lastHour now (globalRequests s) @ [now]),
              userLimits := (userLimits (snd (checkUserLimit (clearBan s u) u now)))(u \<mapsto>
                \<lparr>requests = lastHour now (requestsOf s u) @ [now],
                 violations = violationsOf (snd (checkUserLimit (clearBan s u) u now)) u\<rparr>)\<rparr>)"
  then show ?thesis by blast
qed

lemma checkUserLimit_fst:
  "fst (checkUserLimit s u now) =
     (if minuteLimitOf s u \<le> minuteCount s u now then
        if 3 \<le> violationsOf s u + 1
        then Denied temp_ban_applied (Num (of_int (tempBanDuration (config s)) / 1000)) None
        else Denied minute_limit
               (case Math_max (lastMinute now (requestsOf s u)) of
                  None \<Rightarrow> Num 1
                | Some latest \<Rightarrow> Num (of_int (max (60 - (now - latest) div 1000) 1)))
               (Some \<lparr>minute = 0, hour = hourLimitOf s u - hourCount s u now\<rparr>)
      else if hourLimitOf s u \<le> hourCount s u now then
        Denied hour_limit
          (case Math_min (lastHour now (requestsOf s u)) of
             None \<Rightarrow> Infinity
           | Some oldest \<Rightarrow> Num (of_int (max (3600 - (now - oldest) div 1000) 1)))
          (Some \<lparr>minute = minuteLimitOf s u - minuteCount s u now, hour = 0\<rparr>)
      else Allowed (Some \<lparr>minute = minuteLimitOf s u - minuteCount s u now,
                          hour = hourLimitOf s u - hourCount s u now\<rparr>))"
proof (cases "minuteLimitOf s u \<le> minuteCount s u now")
  case True
  then show ?thesis
    by (cases "3 \<le> violationsOf s u + 1") (simp_all add: checkUserLimit_ban checkUserLimit_minute)
next
  case False
  then show ?thesis
    by (cases "hourLimitOf s u \<le> hourCount s u now")
       (simp_all add: checkUserLimit_hour checkUserLimit_pass)
qed

lemma checkGlobalLimit_frame [simp]:
  "userLimits (snd (checkGlobalLimit s now)) = userLimits s"
  "tempBans (snd (checkGlobalLimit s now)) = tempBans s"
  "config (snd (checkGlobalLimit s now)) = config s"
  "premiumUsers (snd (checkGlobalLimit s now)) = premiumUsers s"
  "requestsOf (snd (checkGlobalLimit s now)) = requestsOf s"
  "violationsOf (snd (checkGlobalLimit s now)) = violationsOf s"
  by (simp_all add: checkGlobalLimit_snd requestsOf_def violationsOf_def fun_eq_iff)

text \<open>The limiter after a call that found no active ban.\<close>

lemma checkRateLimit_unbanned_effect:
  assumes nb: "\<not> activeBan s u now" and r: "checkRateLimit s u now = Inr (d, s')"
  shows "violationsOf s' u = violationsOf (snd (checkUserLimit (clearBan s u) u now)) u"
    and "tempBans s' u = tempBans (snd (checkUserLimit (clearBan s u) u now)) u"
    and "userLimits s' u \<noteq> None"
    and "userPasses s u now \<or> d = fst (checkUserLimit (clearBan s u) u now)"
    and "userPasses s u now \<longrightarrow> \<not> globalPasses s now \<longrightarrow>
           d = fst (checkGlobalLimit (snd (checkUserLimit (clearBan s u) u now)) now)"
    and "userPasses s u now \<longrightarrow> globalPasses s now \<longrightarrow> d = Allowed None"
proof -
  let ?U = "checkUserLimit (clearBan s u) u now"
  let ?G = "checkGlobalLimit (snd ?U) now"
  have "violationsOf s' u = violationsOf (snd ?U) u \<and> tempBans s' u = tempBans (snd ?U) u
      \<and> userLimits s' u \<noteq> None
      \<and> (userPasses s u now \<or> d = fst ?U)
      \<and> (userPasses s u now \<longrightarrow> \<not> globalPasses s now \<longrightarrow> d = fst ?G)
      \<and> (userPasses s u now \<longrightarrow> globalPasses s now \<longrightarrow> d = Allowed None)"
  proof (rule checkRateLimit_cases[of s u now])
    fix e assume "tempBans s u = Some e" "now < e"
    then show ?thesis using nb by (simp add: activeBan_def)
  next
    assume "\<not> userPasses s u now" "checkRateLimit s u now = Inr ?U"
    then show ?thesis using r checkUserLimit_record[of "clearBan s u" u now]
      by (simp add: prod_eq_iff)
  next
    assume "userPasses s u now" "\<not> globalPasses s now" "checkRateLimit s u now = Inr ?G"
    then show ?thesis using r checkUserLimit_record[of "clearBan s u" u now]
      by (auto simp: prod_eq_iff)
  next
    assume "userPasses s u now" "globalPasses s now"
      "checkRateLimit s u now =
         Inr (Allowed None,
           (snd ?U)
             \<lparr>globalLimits :=
                (globalLimits s)(''global'' \<mapsto> lastHour now (globalRequests s) @ [now]),
              userLimits := (userLimits (snd ?U))(u \<mapsto>
                \<lparr>requests = lastHour now (requestsOf s u) @ [now],
                 violations = violationsOf (snd ?U) u\<rparr>)\<rparr>)"
    then show ?thesis using r by (auto simp: violationsOf_def)
  qed
  then show "violationsOf s' u = violationsOf (snd ?U) u"
    "tempBans s' u = tempBans (snd ?U) u" "userLimits s' u \<noteq> None"
    "userPasses s u now \<or> d = fst ?U"
    "userPasses s u now \<longrightarrow> \<not> globalPasses s now \<longrightarrow> d = fst ?G"
    "userPasses s u now \<longrightarrow> globalPasses s now \<longrightarrow> d = Allowed None"
    by blast+
qed

lemmas limiter_eval =
  newRateLimiter_def orDefault_def env1_def bannedLimiter_def warnedLimiter_def
  hourlyLimiter_def breachedLimiter_def busyLimiter_def
  checkRateLimit_def checkQuotas_def checkUserLimit_def checkGlobalLimit_def
  recordRequest_def recordGlobalRequest_def minuteLimitOf_def hourLimitOf_def
  lastHour_def lastMinute_def clearBan_def activeBan_def Let_def

text \<open>The concrete limiters are what sequences of calls on a fresh limiter leave.\<close>

lemma concrete_limiters_reached:
  "map_sum id fst (run (newRateLimiter env1, [])
      [CheckRateLimit ''u'' 100, CheckRateLimit ''u'' 200, CheckRateLimit ''u'' 300,
       CheckRateLimit ''u'' 400]) = Inr warnedLimiter"
  "map_sum id fst (run (newRateLimiter env1, [])
      [CheckRateLimit ''u'' 100, CheckRateLimit ''u'' 200, CheckRateLimit ''u'' 300,
       CheckRateLimit ''u'' 400, CheckRateLimit ''u'' 1000]) = Inr bannedLimiter"
  "map_sum id fst (run (newRateLimiter env1, [])
      [CheckRateLimit ''u'' 100, CheckRateLimit ''u'' 200, CheckRateLimit ''u'' 70000])
     = Inr hourlyLimiter"
  "map_sum id fst (run (newRateLimiter env1, [])
      [CheckRateLimit ''u'' 100, CheckRateLimit ''u'' 200, CheckRateLimit ''u'' 300])
     = Inr breachedLimiter"
  "map_sum id fst (run (newRateLimiter env1, [])
      [CheckRateLimit ''u'' 100, CheckRateLimit ''u'' 200, CheckRateLimit ''u'' 300,
       CheckRateLimit ''vip'' 60500, CheckRateLimit ''vip'' 60600,
       CheckRateLimit ''vip'' 60700])
     = Inr busyLimiter"
  by (simp_all add: limiter_eval fun_upd_twist)

lemma ceiling_numeral_div:
  "\<lceil>(numeral a :: rat) / numeral b\<rceil> = - (- numeral a div numeral b)"
  using ceiling_divide_eq_div[of "numeral a" "numeral b", where ?'a = rat] by simp

lemma checkRateLimit_reason_unbanned:
  assumes nb: "\<not> activeBan s u now" and r: "checkRateLimit s u now = Inr (d, s')"
  shows "reasonOf d \<noteq> Some temp_ban"
    and "tempBans s' u =
      (if reasonOf d = Some temp_ban_applied then Some (now + tempBanDuration (config s))
       else None)"
proof -
  let ?U = "checkUserLimit (clearBan s u) u now"
  note e = checkRateLimit_unbanned_effect[OF nb r]
  have b: "tempBans s' u =
      (if minuteLimitOf s u \<le> minuteCount s u now \<and> 3 \<le> violationsOf s u + 1
       then Some (now + tempBanDuration (config s)) else None)"
    using e(2) by (simp add: checkUserLimit_tempBans)
  consider (u) "\<not> userPasses s u now" "d = fst ?U"
    | (g) "userPasses s u now" "\<not> globalPasses s now"
        "d = fst (checkGlobalLimit (snd ?U) now)"
    | (a) "userPasses s u now" "d = Allowed None"
    using e(4,5,6) by blast
  then have "reasonOf d \<noteq> Some temp_ban \<and>
     (reasonOf d = Some temp_ban_applied \<longleftrightarrow>
        minuteLimitOf s u \<le> minuteCount s u now \<and> 3 \<le> violationsOf s u + 1)"
  proof cases
    case u then show ?thesis by (simp add: checkUserLimit_fst userPasses_def)
  next
    case g then show ?thesis by (simp add: checkGlobalLimit_fst userPasses_def)
  next
    case a then show ?thesis by (simp add: userPasses_def)
  qed
  then show "reasonOf d \<noteq> Some temp_ban"
    "tempBans s' u =
      (if reasonOf d = Some temp_ban_applied then Some (now + tempBanDuration (config s))
       else None)"
    using b by simp_all
qed

subsection \<open>\<^verbatim>\<open>Math.max\<close> and \<^verbatim>\<open>Math.min\<close> of a non-empty list\<close>

lemma Math_max_Max: "xs \<noteq> [] \<Longrightarrow> Math_max xs = Some (Max (set xs))"
  by (cases xs) (simp_all add: Max.set_eq_fold[symmetric])

lemma Math_min_Min: "xs \<noteq> [] \<Longrightarrow> Math_min xs = Some (Min (set xs))"
  by (cases xs) (simp_all add: Min.set_eq_fold[symmetric])

subsection \<open>The retry hints of \<^verbatim>\<open>checkUserLimit\<close>\<close>

lemma floor_numeral_div:
  "\<lfloor>(numeral a :: rat) / numeral b\<rfloor> = numeral a div numeral b"
  using floor_divide_of_int_eq[of "numeral a" "numeral b", where ?'a = rat] by simp

lemma checkUserLimit_retry_minute:
  assumes "reasonOf (fst (checkUserLimit s u now)) = Some minute_limit"
  shows "retryAfter (fst (checkUserLimit s u now)) =
     Some (if lastMinute now (requestsOf s u) = [] then Num 1
           else Num (of_int (max 1 (60 -
                  \<lfloor>(of_int (now - Max (set (lastMinute now (requestsOf s u)))) :: rat) / 1000\<rfloor>))))"
  using assms
  by (auto simp: checkUserLimit_fst Math_max_Max floor_diff_div_1000 max.commute
      split: if_splits)

lemma checkUserLimit_retry_hour:
  assumes "reasonOf (fst (checkUserLimit s u now)) = Some hour_limit"
  shows "retryAfter (fst (checkUserLimit s u now)) =
     Some (if lastHour now (requestsOf s u) = [] then Infinity
           else Num (of_int (max 1 (3600 -
                  \<lfloor>(of_int (now - Min (set (lastHour now (requestsOf s u)))) :: rat) / 1000\<rfloor>))))"
  using assms
  by (auto simp: checkUserLimit_fst Math_min_Min floor_diff_div_1000 max.commute
      split: if_splits)

lemma checkUserLimit_reason_counts:
  "reasonOf (fst (checkUserLimit s u now)) = Some minute_limit
     \<Longrightarrow> minuteLimitOf s u \<le> minuteCount s u now"
  "reasonOf (fst (checkUserLimit s u now)) = Some hour_limit
     \<Longrightarrow> hourLimitOf s u \<le> hourCount s u now"
  by (auto simp: checkUserLimit_fst split: if_splits)

lemma checkRateLimit_user_reason:
  assumes "checkRateLimit s u now = Inr (d, s')"
    "reasonOf d = Some minute_limit \<or> reasonOf d = Some hour_limit"
  shows "d = fst (checkUserLimit (clearBan s u) u now)"
proof (rule checkRateLimit_cases[of s u now])
  fix e assume "checkRateLimit s u now =
      Inr (Denied temp_ban (Num (of_int \<lceil>(of_int (e - now) :: rat) / 1000\<rceil>)) None, s)"
  then show ?thesis using assms by auto
next
  assume "checkRateLimit s u now = Inr (checkUserLimit (clearBan s u) u now)"
  then show ?thesis using assms by (simp add: prod_eq_iff)
next
  assume "checkRateLimit s u now =
      Inr (checkGlobalLimit (snd (checkUserLimit (clearBan s u) u now)) now)"
  then have "d = fst (checkGlobalLimit (snd (checkUserLimit (clearBan s u) u now)) now)"
    using assms by (simp add: prod_eq_iff)
  then show ?thesis using assms(2) by (auto simp: checkGlobalLimit_fst split: if_splits)
next
  assume "checkRateLimit s u now =
         Inr (Allowed None,
           (snd (checkUserLimit (clearBan s u) u now))
             \<lparr>globalLimits :=
                (globalLimits s)(''global'' \<mapsto> lastHour now (globalRequests s) @ [now]),
              userLimits := (userLimits (snd (checkUserLimit (clearBan s u) u now)))(u \<mapsto>
                \<lparr>requests = lastHour now (requestsOf s u) @ [now],
                 violations = violationsOf (snd (checkUserLimit (clearBan s u) u now)) u\<rparr>)\<rparr>)"
  then show ?thesis using assms by auto
qed

subsection \<open>What \<^verbatim>\<open>checkRateLimit\<close> does to the ledger\<close>

lemma checkRateLimit_ledger:
  assumes r: "checkRateLimit s u now = Inr (d, s')"
  shows "allowed d \<longleftrightarrow> \<not> activeBan s u now \<and> userPasses s u now \<and> globalPasses s now"
    and "allowed d \<Longrightarrow> requestsOf s' u = lastHour now (requestsOf s u) @ [now]"
    and "allowed d \<Longrightarrow> globalRequests s' = lastHour now (globalRequests s) @ [now]"
    and "\<not> allowed d \<Longrightarrow>
           requestsOf s' u = requestsOf s u \<or> requestsOf s' u = lastHour now (requestsOf s u)"
    and "\<not> allowed d \<Longrightarrow>
           globalRequests s' = globalRequests s
           \<or> globalRequests s' = lastHour now (globalRequests s)"
    and "u' \<noteq> u \<Longrightarrow> userLimits s' u' = userLimits s u'"
    and "u' \<noteq> u \<Longrightarrow> tempBans s' u' = tempBans s u'"
    and "config s' = config s" and "premiumUsers s' = premiumUsers s"
proof -
  let ?U = "checkUserLimit (clearBan s u) u now"
  let ?G = "checkGlobalLimit (snd ?U) now"
  have "(allowed d \<longleftrightarrow> \<not> activeBan s u now \<and> userPasses s u now \<and> globalPasses s now)
    \<and> (allowed d \<longrightarrow> requestsOf s' u = lastHour now (requestsOf s u) @ [now])
    \<and> (allowed d \<longrightarrow> globalRequests s' = lastHour now (globalRequests s) @ [now])
    \<and> (\<not> allowed d \<longrightarrow>
           requestsOf s' u = requestsOf s u \<or> requestsOf s' u = lastHour now (requestsOf s u))
    \<and> (\<not> allowed d \<longrightarrow>
           globalRequests s' = globalRequests s
           \<or> globalRequests s' = lastHour now (globalRequests s))
    \<and> (u' \<noteq> u \<longrightarrow> userLimits s' u' = userLimits s u')
    \<and> (u' \<noteq> u \<longrightarrow> tempBans s' u' = tempBans s u')
    \<and> config s' = config s \<and> premiumUsers s' = premiumUsers s"
  proof (rule checkRateLimit_cases[of s u now])
    fix e assume "tempBans s u = Some e" "now < e" "checkRateLimit s u now =
      Inr (Denied temp_ban (Num (of_int \<lceil>(of_int (e - now) :: rat) / 1000\<rceil>)) None, s)"
    then show ?thesis using r by (auto simp: activeBan_def)
  next
    assume a: "\<not> activeBan s u now" "\<not> userPasses s u now" "\<not> allowed (fst ?U)"
      "checkRateLimit s u now = Inr ?U"
    then have d: "d = fst ?U" and s': "s' = snd ?U" using r by (simp_all add: prod_eq_iff)
    show ?thesis
      using a(1-3) checkUserLimit_requests[of "clearBan s u" u now]
        checkUserLimit_others[of u' u "clearBan s u" now]
        checkUserLimit_other_bans[of u' u "clearBan s u" now]
      by (simp add: d s' checkUserLimit_config checkUserLimit_premiumUsers)
  next
    assume a: "\<not> activeBan s u now" "userPasses s u now" "\<not> globalPasses s now"
      "\<not> allowed (fst ?G)" "checkRateLimit s u now = Inr ?G"
    then have d: "d = fst ?G" and s': "s' = snd ?G" using r by (simp_all add: prod_eq_iff)
    show ?thesis
      using a(1-4) checkUserLimit_requests[of "clearBan s u" u now]
        checkUserLimit_others[of u' u "clearBan s u" now]
        checkUserLimit_other_bans[of u' u "clearBan s u" now]
      by (simp add: d s' checkUserLimit_config checkUserLimit_premiumUsers
          checkGlobalLimit_requests)
  next
    assume a: "\<not> activeBan s u now" "userPasses s u now" "globalPasses s now"
      "checkRateLimit s u now =
         Inr (Allowed None,
           (snd ?U)
             \<lparr>globalLimits :=
                (globalLimits s)(''global'' \<mapsto> lastHour now (globalRequests s) @ [now]),
              userLimits := (userLimits (snd ?U))(u \<mapsto>
                \<lparr>requests = lastHour now (requestsOf s u) @ [now],
                 violations = violationsOf (snd ?U) u\<rparr>)\<rparr>)"
    then have d: "d = Allowed None" and s': "s' = (snd ?U)
             \<lparr>globalLimits :=
                (globalLimits s)(''global'' \<mapsto> lastHour now (globalRequests s) @ [now]),
              userLimits := (userLimits (snd ?U))(u \<mapsto>
                \<lparr>requests = lastHour now (requestsOf s u) @ [now],
                 violations = violationsOf (snd ?U) u\<rparr>)\<rparr>"
      using r by simp_all
    show ?thesis
      using a(1-3)
        checkUserLimit_others[of u' u "clearBan s u" now]
        checkUserLimit_other_bans[of u' u "clearBan s u" now]
      by (simp add: d s' checkUserLimit_config checkUserLimit_premiumUsers
          requestsOf_def globalRequests_def)
  qed
  then show "allowed d \<longleftrightarrow> \<not> activeBan s u now \<and> userPasses s u now \<and> globalPasses s now"
    and "allowed d \<Longrightarrow> requestsOf s' u = lastHour now (requestsOf s u) @ [now]"
    and "allowed d \<Longrightarrow> globalRequests s' = lastHour now (globalRequests s) @ [now]"
    and "\<not> allowed d \<Longrightarrow>
           requestsOf s' u = requestsOf s u \<or> requestsOf s' u = lastHour now (requestsOf s u)"
    and "\<not> allowed d \<Longrightarrow>
           globalRequests s' = globalRequests s
           \<or> globalRequests s' = lastHour now (globalRequests s)"
    and "u' \<noteq> u \<Longrightarrow> userLimits s' u' = userLimits s u'"
    and "u' \<noteq> u \<Longrightarrow> tempBans s' u' = tempBans s u'"
    and "config s' = config s" and "premiumUsers s' = premiumUsers s"
    by blast+
qed

subsection \<open>What \<^verbatim>\<open>cleanup\<close> does\<close>

lemma lastHour_idem: "lastHour now (lastHour now ts) = lastHour now ts"
  by (simp add: lastHour_def)

lemma cleanup_filter: "filter (\<lambda>time. time > now - 60 * 60 * 1000) ts = lastHour now ts"
  unfolding lastHour_def by (rule filter_cong) auto

lemma cleanup_userLimits:
  "userLimits (cleanup s now) u =
     (case userLimits s u of
        None \<Rightarrow> None
      | Some d \<Rightarrow>
          if lastHour now (requests d) = [] \<and> violations d = 0 then None
          else Some (d\<lparr>requests := lastHour now (requests d)\<rparr>))"
  unfolding cleanup_def Let_def cleanup_filter by (simp split: option.split)

lemma cleanup_globalLimits:
  "globalLimits (cleanup s now) =
     (case globalLimits s ''global'' of
        None \<Rightarrow> globalLimits s
      | Some g \<Rightarrow> (globalLimits s)(''global'' \<mapsto> lastHour now g))"
  unfolding cleanup_def Let_def cleanup_filter by (simp split: option.split)

lemma cleanup_tempBans:
  "tempBans (cleanup s now) u =
     (case tempBans s u of None \<Rightarrow> None | Some e \<Rightarrow> if e < now then None else Some e)"
  unfolding cleanup_def Let_def by (simp split: option.split)

lemma cleanup_frame [simp]:
  "config (cleanup s now) = config s" "premiumUsers (cleanup s now) = premiumUsers s"
  "minuteLimitOf (cleanup s now) = minuteLimitOf s" "hourLimitOf (cleanup s now) = hourLimitOf s"
  by (simp_all add: cleanup_def Let_def minuteLimitOf_def hourLimitOf_def fun_eq_iff)

lemma cleanup_requests: "requestsOf (cleanup s now) u = lastHour now (requestsOf s u)"
  by (simp add: requestsOf_def cleanup_userLimits lastHour_def split: option.split)

lemma cleanup_violations: "violationsOf (cleanup s now) u = violationsOf s u"
  by (simp add: violationsOf_def cleanup_userLimits split: option.split)

lemma cleanup_globalRequests: "globalRequests (cleanup s now) = lastHour now (globalRequests s)"
  by (simp add: globalRequests_def cleanup_globalLimits lastHour_def split: option.split)

lemma cleanup_cleanup: "cleanup (cleanup s now) now = cleanup s now"
proof (rule rateLimiter.equality)
  show "userLimits (cleanup (cleanup s now) now) = userLimits (cleanup s now)"
    by (rule ext) (simp add: cleanup_userLimits lastHour_idem split: option.split)
  show "globalLimits (cleanup (cleanup s now) now) = globalLimits (cleanup s now)"
    by (simp add: cleanup_globalLimits lastHour_idem split: option.split)
  show "tempBans (cleanup (cleanup s now) now) = tempBans (cleanup s now)"
    by (rule ext) (simp add: cleanup_tempBans split: option.split)
  show "rateLimiter.more (cleanup (cleanup s now) now) = rateLimiter.more (cleanup s now)"
    by simp
qed simp_all

lemma cleanup_examples:
  "userLimits (cleanup hourlyLimiter 3670001) ''u'' = None"
  "userLimits (cleanup busyLimiter 3660650) ''u'' = Some \<lparr>requests = [], violations = 1\<rparr>"
  "userLimits (cleanup busyLimiter 3660650) ''vip''
     = Some \<lparr>requests = [60700], violations = 0\<rparr>"
  "globalLimits (cleanup busyLimiter 3660650) ''global'' = Some [60700]"
  "tempBans (cleanup bannedLimiter 301000) ''u'' = Some 301000"
  "tempBans (cleanup bannedLimiter 301001) ''u'' = None"
  by (simp_all add: newRateLimiter_def hourlyLimiter_def busyLimiter_def bannedLimiter_def
      cleanup_userLimits cleanup_globalLimits cleanup_tempBans lastHour_def)

subsection \<open>Running calls\<close>

lemma exec_total: "\<exists>st'. exec st c = Inr st'"
proof (cases st)
  case (Pair s h)
  show ?thesis
  proof (cases c)
    case (CheckRateLimit u now)
    obtain d s' where "checkRateLimit s u now = Inr (d, s')" using checkRateLimit_total by blast
    then show ?thesis using Pair CheckRateLimit by simp
  qed (simp_all add: Pair)
qed

lemma run_total: "\<exists>st'. run st cs = Inr st'"
proof (induction cs arbitrary: st)
  case Nil
  show ?case by simp
next
  case (Cons c cs)
  obtain st1 where "exec st c = Inr st1" using exec_total by blast
  then show ?case using Cons[of st1] by simp
qed

text \<open>An invariant of the limiter that every call preserves holds after every sequence.\<close>

lemma run_invariant:
  assumes step: "\<And>s h c s' h'. P s \<Longrightarrow> exec (s, h) c = Inr (s', h') \<Longrightarrow> P s'"
    and "P s" and "run (s, h) cs = Inr (s', h')"
  shows "P s'"
  using assms(2,3)
proof (induction cs arbitrary: s h)
  case Nil
  then show ?case by simp
next
  case (Cons c cs)
  obtain s1 h1 where e: "exec (s, h) c = Inr (s1, h1)"
    using exec_total[of "(s, h)" c] by auto
  have "P s1" using step[OF Cons.prems(1) e] .
  moreover have "run (s1, h1) cs = Inr (s', h')" using Cons.prems(2) e by simp
  ultimately show ?case by (rule Cons.IH)
qed

subsection \<open>Violation counts are never negative\<close>

lemma checkRateLimit_violations:
  assumes r: "checkRateLimit s u now = Inr (d, s')"
  shows "violationsOf s' u =
     (if activeBan s u now then violationsOf s u
      else if minuteLimitOf s u \<le> minuteCount s u now then violationsOf s u + 1
      else if hourLimitOf s u \<le> hourCount s u now then violationsOf s u
      else if violationsOf s u > 0 then max 0 (violationsOf s u - 1 / 10)
      else violationsOf s u)"
proof (cases "activeBan s u now")
  case True
  then obtain e where "tempBans s u = Some e" "now < e"
    by (auto simp: activeBan_def split: option.splits)
  then have "s' = s" using checkRateLimit_banned[of s u e now] r by simp
  then show ?thesis using True by simp
next
  case False
  then show ?thesis
    using checkRateLimit_unbanned_effect(1)[OF False r]
    by (simp add: checkUserLimit_violations)
qed





lemma run_result: "\<exists>s' h'. run (s, h) cs = Inr (s', h')"
  using run_total[of "(s, h)" cs] by auto





subsection \<open>A banned caller has a record\<close>

lemma checkRateLimit_tempBans:
  assumes nb: "\<not> activeBan s u now" and r: "checkRateLimit s u now = Inr (d, s')"
  shows "tempBans s' u =
     (if minuteLimitOf s u \<le> minuteCount s u now \<and> 3 \<le> violationsOf s u + 1
      then Some (now + tempBanDuration (config s)) else None)"
  using checkRateLimit_unbanned_effect(2)[OF nb r] by (simp add: checkUserLimit_tempBans)

lemma exec_bansHaveRecords:
  assumes inv: "bansHaveRecords s" and e: "exec (s, h) c = Inr (s', h')"
  shows "bansHaveRecords s'"
proof (cases c)
  case (CheckRateLimit u now)
  then obtain d where r: "checkRateLimit s u now = Inr (d, s')"
    using e by (auto split: sum.splits)
  show ?thesis
    unfolding bansHaveRecords_def
  proof (intro allI impI)
    fix u' assume b: "tempBans s' u' \<noteq> None"
    show "userLimits s' u' \<noteq> None \<and> 3 \<le> violationsOf s' u'"
    proof (cases "u' = u")
      case False
      then show ?thesis
        using b inv checkRateLimit_ledger(6,7)[OF r False]
        by (simp add: bansHaveRecords_def violationsOf_def)
    next
      case True
      show ?thesis
      proof (cases "activeBan s u now")
        case ab: True
        then obtain e where "tempBans s u = Some e" "now < e"
          by (auto simp: activeBan_def split: option.splits)
        then have "s' = s" using checkRateLimit_banned[of s u e now] r by simp
        then show ?thesis using b inv True by (simp add: bansHaveRecords_def)
      next
        case nb: False
        have "minuteLimitOf s u \<le> minuteCount s u now \<and> 3 \<le> violationsOf s u + 1"
          using b True checkRateLimit_tempBans[OF nb r] by (simp split: if_splits)
        then have "3 \<le> violationsOf s' u"
          using nb unfolding checkRateLimit_violations[OF r] by simp
        then show ?thesis using True checkRateLimit_unbanned_effect(3)[OF nb r] by simp
      qed
    qed
  qed
next
  case (Cleanup now)
  then have s': "s' = cleanup s now" using e by simp
  show ?thesis
    unfolding bansHaveRecords_def s'
  proof (intro allI impI)
    fix u assume "tempBans (cleanup s now) u \<noteq> None"
    then have "tempBans s u \<noteq> None" by (auto simp: cleanup_tempBans split: option.splits)
    then have "userLimits s u \<noteq> None" "3 \<le> violationsOf s u"
      using inv by (simp_all add: bansHaveRecords_def)
    then show "userLimits (cleanup s now) u \<noteq> None \<and> 3 \<le> violationsOf (cleanup s now) u"
      by (auto simp: cleanup_userLimits cleanup_violations violationsOf_def)
  qed
next
  case (GetUserStats u now)
  then show ?thesis using assms by (auto simp: getUserStats_def Let_def)
next
  case (AddPremiumUser u)
  then show ?thesis using assms
    by (auto simp: addPremiumUser_def bansHaveRecords_def violationsOf_def)
next
  case (RemovePremiumUser u)
  then show ?thesis using assms
    by (auto simp: removePremiumUser_def bansHaveRecords_def violationsOf_def)
next
  case (ClearUserLimits u)
  then show ?thesis using assms
    by (auto simp: clearUserLimits_def bansHaveRecords_def violationsOf_def)
qed

lemma run_bansHaveRecords:
  assumes "run (newRateLimiter e, []) cs = Inr (s, h)"
  shows "bansHaveRecords s"
proof (rule run_invariant[where P = bansHaveRecords, OF _ _ assms])
  show "bansHaveRecords (newRateLimiter e)"
    by (simp add: bansHaveRecords_def newRateLimiter_def)
qed (rule exec_bansHaveRecords)

subsection \<open>Windows\<close>










subsection \<open>The history\<close>



subsection \<open>The ledger agrees with the history\<close>

lemma ledgerInv_later: "ledgerInv n s h \<Longrightarrow> n \<le> n' \<Longrightarrow> ledgerInv n' s h"
  by (simp add: ledgerInv_def)







section \<open>The claims\<close>

subsection \<open>C1: admitted calls stay within the quotas\<close>



subsection \<open>C2: the decision of an admitted call\<close>

text \<open>
  C2, as stated: the \<open>Allowed\<close> decision of \<^verbatim>\<open>checkRateLimit\<close> carries the remaining-quota
  figures. It does not: \<^verbatim>\<open>checkRateLimit\<close> returns \<^verbatim>\<open>{ allowed: true }\<close>. The first
  call of a fresh limiter is admitted with no figures, where the claim asks for
  \<open>minute = 2\<close> and \<open>hour = 3\<close>.
\<close>

theorem allowed_remaining_counterexample:
  "map_sum id fst (checkRateLimit (newRateLimiter env1) ''u'' 1000) = Inr (Allowed None)
   \<and> remainingOf (Allowed None)
       \<noteq> Some \<lparr>minute = minuteLimitOf (newRateLimiter env1) ''u''
                          - minuteCount (newRateLimiter env1) ''u'' 1000,
                hour = hourLimitOf (newRateLimiter env1) ''u''
                          - hourCount (newRateLimiter env1) ''u'' 1000\<rparr>"
  by (simp add: limiter_eval accessors)

text \<open>
  C2, amended: when all checks pass, \<^verbatim>\<open>checkRateLimit\<close> returns \<open>Allowed\<close> with no
  remaining-quota figures. The figures, the tier quotas minus the counts of the trailing
  minute and hour before the request is recorded, are carried by the passing result of
  \<^verbatim>\<open>checkUserLimit\<close>, which \<^verbatim>\<open>checkRateLimit\<close> does not return.
\<close>

theorem allowed_without_remaining:
  assumes "checkRateLimit s u now = Inr (d, s')" "allowed d"
  shows "d = Allowed None \<and> remainingOf d = None
    \<and> fst (checkUserLimit (clearBan s u) u now)
        = Allowed (Some \<lparr>minute = minuteLimitOf s u - minuteCount s u now,
                           hour = hourLimitOf s u - hourCount s u now\<rparr>)"
proof -
  from checkRateLimit_ledger(1)[OF assms(1)] assms(2)
  have nb: "\<not> activeBan s u now" and up: "userPasses s u now" and gp: "globalPasses s now"
    by simp_all
  have "d = Allowed None" using checkRateLimit_unbanned_effect(6)[OF nb assms(1)] up gp by simp
  moreover have "fst (checkUserLimit (clearBan s u) u now)
        = Allowed (Some \<lparr>minute = minuteLimitOf s u - minuteCount s u now,
                           hour = hourLimitOf s u - hourCount s u now\<rparr>)"
    using up by (simp add: checkUserLimit_fst userPasses_def)
  ultimately show ?thesis by simp
qed

theorem allowed_without_remaining_witness:
  "map_sum id fst (checkRateLimit (newRateLimiter env1) ''u'' 1000) = Inr (Allowed None)
   \<and> fst (checkUserLimit (clearBan (newRateLimiter env1) ''u'') ''u'' 1000)
       = Allowed (Some \<lparr>minute = 2, hour = 3\<rparr>)"
proof -
  obtain d s' where r: "checkRateLimit (newRateLimiter env1) ''u'' 1000 = Inr (d, s')"
    using checkRateLimit_total by blast
  have a: "allowed d" using r by (auto simp: limiter_eval)
  show ?thesis
    using allowed_without_remaining[OF r a] by (simp add: r limiter_eval accessors)
qed

subsection \<open>C3: the ban check\<close>

text \<open>
  C3. For a caller with a ban record: while \<open>now < expiry\<close>, \<^verbatim>\<open>checkRateLimit\<close> answers
  \<open>Denied temp_ban\<close> with \<open>retryAfter = \<lceil>(expiry - now) / 1000\<rceil>\<close> and leaves the limiter
  as it is, whatever the caller's quota state; once \<open>expiry \<le> now\<close>, the record is deleted
  (\<open>clearBan\<close>) and the call is the quota evaluation \<open>checkQuotas\<close> of the limiter without
  the record, the same evaluation as for a caller that never had a ban. After such a call the
  caller has a ban record only if this very call installed a new one
  (\<open>temp_ban_applied\<close>).
\<close>

theorem temp_ban_check:
  assumes "tempBans s userId = Some expiry"
  shows "(now < expiry \<longrightarrow>
            checkRateLimit s userId now =
              Inr (Denied temp_ban
                     (Num (of_int \<lceil>(of_int (expiry - now) :: rat) / 1000\<rceil>)) None, s))
       \<and> (expiry \<le> now \<longrightarrow>
            checkRateLimit s userId now = checkQuotas (clearBan s userId) userId now
          \<and> checkRateLimit (clearBan s userId) userId now
              = checkQuotas (clearBan s userId) userId now
          \<and> (\<forall>d s'. checkRateLimit s userId now = Inr (d, s') \<longrightarrow>
                reasonOf d \<noteq> Some temp_ban
              \<and> tempBans s' userId =
                  (if reasonOf d = Some temp_ban_applied
                   then Some (now + tempBanDuration (config s)) else None)))"
proof (intro conjI impI allI)
  assume "now < expiry"
  with assms show "checkRateLimit s userId now =
      Inr (Denied temp_ban (Num (of_int \<lceil>(of_int (expiry - now) :: rat) / 1000\<rceil>)) None, s)"
    by (rule checkRateLimit_banned)
next
  assume e: "expiry \<le> now"
  then have nb: "\<not> activeBan s userId now" using assms by (simp add: activeBan_def)
  show "checkRateLimit s userId now = checkQuotas (clearBan s userId) userId now"
    by (rule checkRateLimit_unbanned[OF nb])
  show "checkRateLimit (clearBan s userId) userId now
      = checkQuotas (clearBan s userId) userId now"
    by (simp add: checkRateLimit_def)
  fix d s' assume r: "checkRateLimit s userId now = Inr (d, s')"
  show "reasonOf d \<noteq> Some temp_ban" by (rule checkRateLimit_reason_unbanned(1)[OF nb r])
  show "tempBans s' userId =
      (if reasonOf d = Some temp_ban_applied
       then Some (now + tempBanDuration (config s)) else None)"
    by (rule checkRateLimit_reason_unbanned(2)[OF nb r])
qed

theorem temp_ban_check_witness:
  "tempBans bannedLimiter ''u'' = Some 301000
   \<and> checkRateLimit bannedLimiter ''u'' 2500
       = Inr (Denied temp_ban (Num 299) None, bannedLimiter)
   \<and> map_sum id fst (checkRateLimit bannedLimiter ''u'' 301000) = Inr (Allowed None)
   \<and> map_sum id (\<lambda>r. tempBans (snd r) ''u'') (checkRateLimit bannedLimiter ''u'' 301000)
       = Inr None"
  using temp_ban_check[of bannedLimiter "''u''" 301000 2500]
    temp_ban_check[of bannedLimiter "''u''" 301000 301000]
  by (simp add: limiter_eval ceiling_numeral_div)

subsection \<open>C4: a breach of the minute quota\<close>



subsection \<open>C5: the retry hint of a per-caller denial\<close>

text \<open>
  C5. A denial with reason \<open>minute_limit\<close> carries
  \<open>retryAfter = max 1 (60 - \<lfloor>(now - t) / 1000\<rfloor>)\<close> for the latest timestamp \<open>t\<close> of the caller
  in the trailing minute, and a denial with reason \<open>hour_limit\<close> carries
  \<open>retryAfter = max 1 (3600 - \<lfloor>(now - t) / 1000\<rfloor>)\<close> for the oldest timestamp \<open>t\<close> in the
  trailing hour. With a quota of at least 1 the window of such a denial holds a timestamp;
  where it holds none the hint is 1 and \<^verbatim>\<open>Infinity\<close>. In every case the hint is at least
  1. Both denials are the ones \<^verbatim>\<open>checkUserLimit\<close> built.
\<close>

theorem retry_after_clamped:
  assumes "checkRateLimit s u now = Inr (d, s')"
  shows "(reasonOf d = Some minute_limit \<longrightarrow>
            retryAfter d =
              Some (if lastMinute now (requestsOf s u) = [] then Num 1
                    else Num (of_int (max 1 (60 -
                      \<lfloor>(of_int (now - Max (set (lastMinute now (requestsOf s u)))) :: rat)
                          / 1000\<rfloor>))))
          \<and> d = fst (checkUserLimit (clearBan s u) u now)
          \<and> (0 < minuteLimitOf s u \<longrightarrow> lastMinute now (requestsOf s u) \<noteq> []))
       \<and> (reasonOf d = Some hour_limit \<longrightarrow>
            retryAfter d =
              Some (if lastHour now (requestsOf s u) = [] then Infinity
                    else Num (of_int (max 1 (3600 -
                      \<lfloor>(of_int (now - Min (set (lastHour now (requestsOf s u)))) :: rat)
                          / 1000\<rfloor>))))
          \<and> d = fst (checkUserLimit (clearBan s u) u now)
          \<and> (0 < hourLimitOf s u \<longrightarrow> lastHour now (requestsOf s u) \<noteq> []))
       \<and> (reasonOf d = Some minute_limit \<or> reasonOf d = Some hour_limit \<longrightarrow>
            (\<exists>n. retryAfter d = Some n \<and> atLeastOne n))"
proof -
  let ?U = "checkUserLimit (clearBan s u) u now"
  have m: "retryAfter d =
              Some (if lastMinute now (requestsOf s u) = [] then Num 1
                    else Num (of_int (max 1 (60 -
                      \<lfloor>(of_int (now - Max (set (lastMinute now (requestsOf s u)))) :: rat)
                          / 1000\<rfloor>))))
          \<and> d = fst ?U" if "reasonOf d = Some minute_limit"
    using checkRateLimit_user_reason[OF assms] that
      checkUserLimit_retry_minute[of "clearBan s u" u now] by simp
  have h: "retryAfter d =
              Some (if lastHour now (requestsOf s u) = [] then Infinity
                    else Num (of_int (max 1 (3600 -
                      \<lfloor>(of_int (now - Min (set (lastHour now (requestsOf s u)))) :: rat)
                          / 1000\<rfloor>))))
          \<and> d = fst ?U" if "reasonOf d = Some hour_limit"
    using checkRateLimit_user_reason[OF assms] that
      checkUserLimit_retry_hour[of "clearBan s u" u now] by simp
  have me: "lastMinute now (requestsOf s u) \<noteq> []"
    if "reasonOf d = Some minute_limit" "0 < minuteLimitOf s u"
    using checkUserLimit_reason_counts(1)[of "clearBan s u" u now] m[OF that(1)] that
    by (auto simp: minuteCount_def)
  have he: "lastHour now (requestsOf s u) \<noteq> []"
    if "reasonOf d = Some hour_limit" "0 < hourLimitOf s u"
    using checkUserLimit_reason_counts(2)[of "clearBan s u" u now] h[OF that(1)] that
    by (auto simp: hourCount_def)
  have "\<exists>n. retryAfter d = Some n \<and> atLeastOne n"
    if "reasonOf d = Some minute_limit \<or> reasonOf d = Some hour_limit"
    using that m h by (auto split: if_splits)
  then show ?thesis using m h me he by blast
qed

theorem retry_after_clamped_witness:
  "checkRateLimit breachedLimiter ''u'' 59300
     = Inr (Denied minute_limit (Num 1) (Some \<lparr>minute = 0, hour = 1\<rparr>),
            breachedLimiter\<lparr>userLimits := (userLimits breachedLimiter)
               (''u'' \<mapsto> \<lparr>requests = [100, 200], violations = 2\<rparr>)\<rparr>)
   \<and> minuteLimitOf breachedLimiter ''u'' = 2
   \<and> lastMinute 59300 (requestsOf breachedLimiter ''u'') = [100, 200]
   \<and> max 1 (60 - \<lfloor>(of_int (59300 - 200) :: rat) / 1000\<rfloor>) = 1
   \<and> map_sum id fst (checkRateLimit hourlyLimiter ''u'' 125000)
       = Inr (Denied hour_limit (Num 3476) (Some \<lparr>minute = 1, hour = 0\<rparr>))
   \<and> hourLimitOf hourlyLimiter ''u'' = 3
   \<and> lastHour 125000 (requestsOf hourlyLimiter ''u'') = [100, 200, 70000]
   \<and> max 1 (3600 - \<lfloor>(of_int (125000 - 100) :: rat) / 1000\<rfloor>) = 3476"
  using retry_after_clamped[of breachedLimiter "''u''" 59300]
    retry_after_clamped[of hourlyLimiter "''u''" 125000]
  by (simp add: limiter_eval accessors floor_numeral_div)

subsection \<open>C6: timestamps are recorded on admission only\<close>

text \<open>
  C6. A call of \<^verbatim>\<open>checkRateLimit\<close> that answers \<open>Allowed\<close> appends \<open>now\<close> to the caller's
  history and to the global history (both pruned to the trailing hour by the checks). A
  call that answers \<open>Denied\<close>, for any reason, appends nothing: each history is left as it
  was or pruned to the trailing hour. The histories of other callers are never touched.
\<close>

theorem recorded_only_when_allowed:
  assumes "checkRateLimit s u now = Inr (d, s')"
  shows "(allowed d \<longrightarrow>
            requestsOf s' u = lastHour now (requestsOf s u) @ [now]
          \<and> globalRequests s' = lastHour now (globalRequests s) @ [now])
       \<and> (\<not> allowed d \<longrightarrow>
            (requestsOf s' u = requestsOf s u
             \<or> requestsOf s' u = lastHour now (requestsOf s u))
          \<and> (globalRequests s' = globalRequests s
             \<or> globalRequests s' = lastHour now (globalRequests s)))
       \<and> (\<forall>u'. u' \<noteq> u \<longrightarrow> requestsOf s' u' = requestsOf s u')"
  using checkRateLimit_ledger[OF assms] by (simp add: requestsOf_def)

theorem recorded_only_when_allowed_witness:
  "map_sum id (\<lambda>r. (fst r, requestsOf (snd r) ''u'', globalRequests (snd r)))
      (checkRateLimit bannedLimiter ''u'' 301000)
     = Inr (Allowed None, [100, 200, 301000], [100, 200, 301000])
   \<and> map_sum id (\<lambda>r. (fst r, requestsOf (snd r) ''u'', globalRequests (snd r)))
      (checkRateLimit warnedLimiter ''u'' 1000)
     = Inr (Denied temp_ban_applied (Num 300) None, [100, 200], [100, 200])
   \<and> map_sum id (\<lambda>r. requestsOf (snd r) ''vip'') (checkRateLimit busyLimiter ''u'' 61000)
     = Inr [60500, 60600, 60700]"
proof -
  obtain d1 s1 where r1: "checkRateLimit bannedLimiter ''u'' 301000 = Inr (d1, s1)"
    using checkRateLimit_total by blast
  obtain d2 s2 where r2: "checkRateLimit warnedLimiter ''u'' 1000 = Inr (d2, s2)"
    using checkRateLimit_total by blast
  obtain d3 s3 where r3: "checkRateLimit busyLimiter ''u'' 61000 = Inr (d3, s3)"
    using checkRateLimit_total by blast
  have a1: "d1 = Allowed None" and a2: "d2 = Denied temp_ban_applied (Num 300) None"
    using r1 r2 by (simp_all add: limiter_eval)
  show ?thesis
    using recorded_only_when_allowed[OF r1] recorded_only_when_allowed[OF r2]
      recorded_only_when_allowed[OF r3, THEN conjunct2, THEN conjunct2, rule_format, of "''vip''"]
    by (simp add: r1 r2 r3 a1 a2 limiter_eval accessors)
qed

subsection \<open>C7: the violation count\<close>



subsection \<open>C8: the sweep\<close>

text \<open>
  C8. \<^verbatim>\<open>cleanup\<close> run twice at the same instant leaves the limiter that one run leaves.
  One run prunes every caller's history to the trailing hour and deletes the caller's
  record exactly when the pruned history is empty and the violation count is exactly 0;
  it prunes the global history, creating no global record; and it removes exactly the bans
  whose expiry lies before \<open>now\<close>. Quotas and the premium set are not touched.
\<close>

theorem cleanup_idempotent:
  "cleanup (cleanup s now) now = cleanup s now
   \<and> (userLimits (cleanup s now) u = None \<longleftrightarrow>
        userLimits s u = None
        \<or> (lastHour now (requestsOf s u) = [] \<and> violationsOf s u = 0))
   \<and> requestsOf (cleanup s now) u = lastHour now (requestsOf s u)
   \<and> violationsOf (cleanup s now) u = violationsOf s u
   \<and> globalRequests (cleanup s now) = lastHour now (globalRequests s)
   \<and> (globalLimits (cleanup s now) ''global'' = None \<longleftrightarrow> globalLimits s ''global'' = None)
   \<and> tempBans (cleanup s now) u =
        (case tempBans s u of None \<Rightarrow> None | Some e \<Rightarrow> if e < now then None else Some e)
   \<and> config (cleanup s now) = config s \<and> premiumUsers (cleanup s now) = premiumUsers s"
proof -
  have "userLimits (cleanup s now) u = None \<longleftrightarrow>
        userLimits s u = None
        \<or> (lastHour now (requestsOf s u) = [] \<and> violationsOf s u = 0)"
    by (simp add: cleanup_userLimits requestsOf_def violationsOf_def split: option.split)
  moreover have "globalLimits (cleanup s now) ''global'' = None
      \<longleftrightarrow> globalLimits s ''global'' = None"
    by (simp add: cleanup_globalLimits split: option.split)
  ultimately show ?thesis
    by (simp add: cleanup_cleanup cleanup_requests cleanup_violations cleanup_globalRequests
        cleanup_tempBans)
qed

subsection \<open>C9: a global denial after a passing per-caller check\<close>

text \<open>
  C9. When no ban is active and the per-caller check passes but a global quota is
  exhausted, \<^verbatim>\<open>checkRateLimit\<close> answers \<open>Denied\<close> with a global reason and records nothing,
  yet the per-caller check has already run: the caller's record exists afterwards, its
  history is pruned to the trailing hour, and a positive violation count is decayed by
  \<open>1/10\<close>, floored at 0.
\<close>

theorem global_denial_still_decays:
  assumes "\<not> activeBan s u now" "userPasses s u now" "\<not> globalPasses s now"
    "checkRateLimit s u now = Inr (d, s')"
  shows "\<not> allowed d
    \<and> (reasonOf d = Some global_minute_limit \<or> reasonOf d = Some global_hour_limit)
    \<and> userLimits s' u \<noteq> None
    \<and> requestsOf s' u = lastHour now (requestsOf s u)
    \<and> (0 < violationsOf s u \<longrightarrow>
         violationsOf s' u = max 0 (violationsOf s u - 1 / 10)
       \<and> violationsOf s' u < violationsOf s u)"
proof -
  note e = checkRateLimit_unbanned_effect[OF assms(1,4)]
  note l = checkRateLimit_ledger[OF assms(4)]
  have na: "\<not> allowed d" using l(1) assms(3) by simp
  have d: "d = fst (checkGlobalLimit (snd (checkUserLimit (clearBan s u) u now)) now)"
    using e(5) assms(2,3) by simp
  have rs: "reasonOf d = Some global_minute_limit \<or> reasonOf d = Some global_hour_limit"
    using assms(3) by (auto simp: d checkGlobalLimit_fst globalPasses_def checkUserLimit_config)
  have rq: "requestsOf s' u = lastHour now (requestsOf s u)"
  proof -
    have "s' = snd (checkGlobalLimit (snd (checkUserLimit (clearBan s u) u now)) now)"
    proof (rule checkRateLimit_cases[of s u now])
      assume "checkRateLimit s u now =
        Inr (checkGlobalLimit (snd (checkUserLimit (clearBan s u) u now)) now)"
      then show ?thesis using assms(4) by (simp add: prod_eq_iff)
    qed (use assms in \<open>simp_all add: activeBan_def\<close>)
    then show ?thesis by (simp add: checkUserLimit_requests)
  qed
  have v: "violationsOf s' u = max 0 (violationsOf s u - 1 / 10)" if "0 < violationsOf s u"
    using e(1) assms(2) that by (simp add: checkUserLimit_violations userPasses_def)
  show ?thesis using na rs e(3) rq v by auto
qed

theorem global_denial_still_decays_witness:
  "\<not> activeBan busyLimiter ''u'' 61000 \<and> userPasses busyLimiter ''u'' 61000
   \<and> \<not> globalPasses busyLimiter 61000 \<and> violationsOf busyLimiter ''u'' = 1
   \<and> map_sum id (\<lambda>r. (fst r, violationsOf (snd r) ''u''))
        (checkRateLimit busyLimiter ''u'' 61000)
       = Inr (Denied global_minute_limit (Num 60) None, 9 / 10)"
proof -
  obtain d s' where r: "checkRateLimit busyLimiter ''u'' 61000 = Inr (d, s')"
    using checkRateLimit_total by blast
  have h: "\<not> activeBan busyLimiter ''u'' 61000" "userPasses busyLimiter ''u'' 61000"
    "\<not> globalPasses busyLimiter 61000"
    by (simp_all add: limiter_eval accessors userPasses_def globalPasses_def)
  have d: "d = Denied global_minute_limit (Num 60) None" using r by (simp add: limiter_eval)
  show ?thesis
    using global_denial_still_decays[OF h r] h
    by (simp add: r d limiter_eval accessors)
qed

subsection \<open>C10: the usage snapshot\<close>

text \<open>
  C10. \<^verbatim>\<open>getUserStats\<close> leaves the limiter as it is, all five fields. After any
  sequence of calls on a fresh limiter, administrative ones included, a caller without a
  record is reported with 0 requests used in the minute and in the hour, 0 violations and
  no ban, and still has no record afterwards.
\<close>

theorem getUserStats_read_only:
  "snd (getUserStats s u now) = s
   \<and> (run (newRateLimiter e, []) cs = Inr (s, h) \<longrightarrow> userLimits s u = None \<longrightarrow>
        fst (getUserStats s u now) =
          \<lparr>isPremium = (u \<in> premiumUsers s),
           usageMinute = \<lparr>used = 0, limit = minuteLimitOf s u\<rparr>,
           usageHour = \<lparr>used = 0, limit = hourLimitOf s u\<rparr>,
           statsViolations = 0,
           tempBanned = False\<rparr>
      \<and> userLimits (snd (getUserStats s u now)) u = None)"
proof (intro conjI impI)
  show "snd (getUserStats s u now) = s" by (simp add: getUserStats_def Let_def)
next
  assume r: "run (newRateLimiter e, []) cs = Inr (s, h)" and n: "userLimits s u = None"
  have "tempBans s u = None"
    using run_bansHaveRecords[OF r] n by (auto simp: bansHaveRecords_def)
  then show "fst (getUserStats s u now) =
          \<lparr>isPremium = (u \<in> premiumUsers s),
           usageMinute = \<lparr>used = 0, limit = minuteLimitOf s u\<rparr>,
           usageHour = \<lparr>used = 0, limit = hourLimitOf s u\<rparr>,
           statsViolations = 0,
           tempBanned = False\<rparr>"
    using n by (simp add: getUserStats_def Let_def lastMinute_def lastHour_def)
  show "userLimits (snd (getUserStats s u now)) u = None"
    using n by (simp add: getUserStats_def Let_def)
qed

theorem getUserStats_read_only_witness:
  "map_sum id (\<lambda>r. (userLimits (fst r) ''b'', fst (getUserStats (fst r) ''b'' 800)))
      (run (newRateLimiter env1, []) trace1)
   = Inr (None,
          \<lparr>isPremium = False,
           usageMinute = \<lparr>used = 0, limit = 2\<rparr>,
           usageHour = \<lparr>used = 0, limit = 3\<rparr>,
           statsViolations = 0,
           tempBanned = False\<rparr>)"
proof -
  obtain s h where r: "run (newRateLimiter env1, []) trace1 = Inr (s, h)"
    using run_result by blast
  have n: "userLimits s ''b'' = None" and p: "premiumUsers s = {''vip''}"
    and c: "userRequestsPerMinute (config s) = 2" "userRequestsPerHour (config s) = 3"
    using r by (auto simp: trace1_def limiter_eval cleanup_def getUserStats_def)
  show ?thesis
    using getUserStats_read_only[of s "''b''" 800 env1 trace1 h] r n
    by (simp add: p c minuteLimitOf_def hourLimitOf_def)
qed

end
